theory Spec2Isabelle
  imports Complex_Main "HOL-Library.Log_Nat" "HOL-Library.Word"
begin

section \<open>Python numbers\<close>

text \<open>
  The scoring pipeline computes with Python \<open>int\<close> (unbounded, modelled as \<open>int\<close>) and
  Python \<open>float\<close> (IEEE-754 binary64).  A float is modelled by its value: a finite float is
  \<open>Fin x\<close> with \<open>x\<close> the real number it denotes, next to the two infinities and NaN.  The
  two signed zeros are identified: the code only compares floats, rounds them to integers
  and adds or multiplies them, and none of these tells \<open>-0.0\<close> from \<open>0.0\<close> in its result
  value.  Every arithmetic operation computes the exact real result and rounds it to the
  nearest binary64 number, ties to the even significand (\<open>b64\<close>).
\<close>

datatype py_error = OverflowError | ValueError | ZeroDivisionError | TypeError | RPCError

datatype pyfloat = Fin real | PInf | NInf | NaN

text \<open>Round half to even, to an integer (the tie rule of binary64 and of Python's \<open>round\<close>).\<close>

definition rne :: "real \<Rightarrow> int" where
  "rne x = (let f = \<lfloor>x\<rfloor>; d = x - of_int f in
     if d < 1 / 2 then f else if 1 / 2 < d then f + 1 else if even f then f else f + 1)"

text \<open>The binary exponent of a non-zero real: \<open>2 powi expo x \<le> \<bar>x\<bar> < 2 powi (expo x + 1)\<close>.\<close>

definition expo :: "real \<Rightarrow> int" where
  "expo x = (if 1 \<le> \<bar>x\<bar> then bitlen \<lfloor>\<bar>x\<bar>\<rfloor> - 1
     else (let k = bitlen \<lfloor>1 / \<bar>x\<bar>\<rfloor> - 1 in
       if 1 / \<bar>x\<bar> = 2 ^ nat k then - k else - k - 1))"

text \<open>
  Rounding to 53 significant bits with the exponent unbounded above and bounded below by
  \<open>-1022\<close> (below that the spacing stays \<open>2 powi (-1074)\<close>: the subnormal numbers).
\<close>

definition ulp_exp :: "real \<Rightarrow> int" where
  "ulp_exp x = max (expo x) (- 1022) - 52"

definition rd :: "real \<Rightarrow> real" where
  "rd x = (if x = 0 then 0 else
     (let q = ulp_exp x in of_int (rne (x * 2 powi (- q))) * 2 powi q))"

definition b64 :: "real \<Rightarrow> pyfloat" where
  "b64 x = (let y = rd x in
     if 2 ^ 1024 \<le> \<bar>y\<bar> then (if 0 < y then PInf else NInf) else Fin y)"

fun fneg :: "pyfloat \<Rightarrow> pyfloat" where
  "fneg (Fin x) = Fin (- x)"
| "fneg PInf = NInf"
| "fneg NInf = PInf"
| "fneg NaN = NaN"

fun fmul :: "pyfloat \<Rightarrow> pyfloat \<Rightarrow> pyfloat" where
  "fmul NaN b = NaN"
| "fmul a NaN = NaN"
| "fmul (Fin x) (Fin y) = b64 (x * y)"
| "fmul (Fin x) PInf = (if x = 0 then NaN else if 0 < x then PInf else NInf)"
| "fmul (Fin x) NInf = (if x = 0 then NaN else if 0 < x then NInf else PInf)"
| "fmul PInf (Fin y) = (if y = 0 then NaN else if 0 < y then PInf else NInf)"
| "fmul NInf (Fin y) = (if y = 0 then NaN else if 0 < y then NInf else PInf)"
| "fmul PInf PInf = PInf"
| "fmul PInf NInf = NInf"
| "fmul NInf PInf = NInf"
| "fmul NInf NInf = PInf"

fun fadd :: "pyfloat \<Rightarrow> pyfloat \<Rightarrow> pyfloat" where
  "fadd NaN b = NaN"
| "fadd a NaN = NaN"
| "fadd (Fin x) (Fin y) = b64 (x + y)"
| "fadd (Fin x) PInf = PInf"
| "fadd (Fin x) NInf = NInf"
| "fadd PInf (Fin y) = PInf"
| "fadd NInf (Fin y) = NInf"
| "fadd PInf PInf = PInf"
| "fadd PInf NInf = NaN"
| "fadd NInf PInf = NaN"
| "fadd NInf NInf = NInf"

definition fsub :: "pyfloat \<Rightarrow> pyfloat \<Rightarrow> pyfloat" where
  "fsub a b = fadd a (fneg b)"

text \<open>The comparisons \<open>a < b\<close> and \<open>a <= b\<close> of floats; both are false when NaN is involved.\<close>

fun flt :: "pyfloat \<Rightarrow> pyfloat \<Rightarrow> bool" where
  "flt NaN b = False"
| "flt a NaN = False"
| "flt (Fin x) (Fin y) = (x < y)"
| "flt a PInf = (a \<noteq> PInf)"
| "flt PInf b = False"
| "flt NInf b = (b \<noteq> NInf)"
| "flt a NInf = False"

definition fle :: "pyfloat \<Rightarrow> pyfloat \<Rightarrow> bool" where
  "fle a b = (a \<noteq> NaN \<and> b \<noteq> NaN \<and> \<not> flt b a)"

text \<open>
  Python's \<open>min(a, b)\<close> and \<open>max(a, b)\<close> keep the first argument unless the second is
  strictly smaller (larger), so a NaN in second place is dropped.
\<close>

definition py_min :: "pyfloat \<Rightarrow> pyfloat \<Rightarrow> pyfloat" where
  "py_min a b = (if flt b a then b else a)"

definition py_max :: "pyfloat \<Rightarrow> pyfloat \<Rightarrow> pyfloat" where
  "py_max a b = (if flt a b then b else a)"

text \<open>
  An \<open>int\<close> operand of a float operation is converted first; the conversion rounds to
  nearest and raises OverflowError when the result is out of the float range.
\<close>

definition float_of_int :: "int \<Rightarrow> py_error + pyfloat" where
  "float_of_int n = (case b64 (of_int n) of Fin y \<Rightarrow> Inr (Fin y) | _ \<Rightarrow> Inl OverflowError)"

text \<open>True division \<open>a / b\<close> of two ints: the correctly rounded quotient.\<close>

definition int_truediv :: "int \<Rightarrow> int \<Rightarrow> py_error + pyfloat" where
  "int_truediv a b =
     (if b = 0 then Inl ZeroDivisionError
      else case b64 (of_int a / of_int b) of Fin y \<Rightarrow> Inr (Fin y) | _ \<Rightarrow> Inl OverflowError)"

text \<open>\<open>round(x)\<close>: the nearest integer, ties to even; NaN and the infinities raise.\<close>

definition py_round :: "pyfloat \<Rightarrow> py_error + int" where
  "py_round a = (case a of Fin x \<Rightarrow> Inr (rne x) | NaN \<Rightarrow> Inl ValueError | _ \<Rightarrow> Inl OverflowError)"

text \<open>
  \<open>round(x, 1)\<close>: the exact value of \<open>x\<close> is rounded to one decimal digit, ties to even, and
  the decimal is converted back to the nearest float.  NaN and the infinities are returned
  as they are.
\<close>

definition py_round1 :: "pyfloat \<Rightarrow> py_error + pyfloat" where
  "py_round1 a = (case a of
     Fin x \<Rightarrow> (case b64 (of_int (rne (x * 10)) / 10) of Fin y \<Rightarrow> Inr (Fin y) | _ \<Rightarrow> Inl OverflowError)
   | _ \<Rightarrow> Inr a)"

text \<open>\<open>int(x)\<close> of a float: truncation towards zero.\<close>

definition py_int :: "pyfloat \<Rightarrow> py_error + int" where
  "py_int a = (case a of
     Fin x \<Rightarrow> Inr (if 0 \<le> x then \<lfloor>x\<rfloor> else \<lceil>x\<rceil>)
   | NaN \<Rightarrow> Inl ValueError
   | _ \<Rightarrow> Inl OverflowError)"

text \<open>
  \<open>x ** y\<close> for floats calls the C library's \<open>pow\<close>, which is not part of the repository.
  It is modelled as the correctly rounded power for a finite base \<open>x > 0\<close> and a finite
  exponent, the only case the analyzer reaches (\<open>0 < ratio < 1\<close>, exponent \<open>0.6\<close>).  For a
  negative base and a fractional exponent Python leaves the floats (the result is complex,
  and the \<open>min\<close> that follows raises TypeError); the other special cases are not reached.
\<close>

definition float_pow :: "pyfloat \<Rightarrow> pyfloat \<Rightarrow> py_error + pyfloat" where
  "float_pow a b = (case (a, b) of
     (Fin x, Fin y) \<Rightarrow>
       (if 0 < x then (case b64 (x powr y) of Fin z \<Rightarrow> Inr (Fin z) | _ \<Rightarrow> Inl OverflowError)
        else Inl TypeError)
   | _ \<Rightarrow> Inl TypeError)"

section \<open>Strings and the address digest\<close>

text \<open>
  A wallet address is a \<open>string\<close>; each \<open>char\<close> is one code point below 256 (a Python
  \<open>str\<close> may hold larger code points; they are outside this model).  An address that the
  RPC client accepts is base58, hence ASCII.  \<open>strip\<close> removes the characters that Python
  counts as whitespace from both ends, and \<open>encode_utf8\<close> is \<open>str.encode("utf-8")\<close> on these
  code points.
\<close>

definition is_space :: "char \<Rightarrow> bool" where
  "is_space c = ((of_char c :: nat) \<in> {9, 10, 11, 12, 13, 28, 29, 30, 31, 32, 133, 160})"

definition strip :: "string \<Rightarrow> string" where
  "strip s = rev (dropWhile is_space (rev (dropWhile is_space s)))"

definition encode_utf8 :: "string \<Rightarrow> 8 word list" where
  "encode_utf8 s = concat (map (\<lambda>c. let n = (of_char c :: nat) in
     if n < 128 then [of_nat n] else [of_nat (192 + n div 64), of_nat (128 + n mod 64)]) s)"

definition hexchar :: "nat \<Rightarrow> char" where
  "hexchar n = ''0123456789abcdef'' ! n"

fun hex_digits :: "nat \<Rightarrow> nat \<Rightarrow> string" where
  "hex_digits 0 v = []"
| "hex_digits (Suc n) v = hex_digits n (v div 16) @ [hexchar (v mod 16)]"

text \<open>\<open>hexdigest()\<close> of a 256-bit digest: its 64 hexadecimal digits, most significant first.\<close>

definition hexdigest :: "256 word \<Rightarrow> string" where
  "hexdigest d = hex_digits 64 (unat d)"

definition hex_value :: "char \<Rightarrow> nat option" where
  "hex_value c = (let n = (of_char c :: nat) in
     if 48 \<le> n \<and> n \<le> 57 then Some (n - 48)
     else if 97 \<le> n \<and> n \<le> 102 then Some (n - 87)
     else if 65 \<le> n \<and> n \<le> 70 then Some (n - 55)
     else None)"

fun hex_accum :: "int \<Rightarrow> string \<Rightarrow> py_error + int" where
  "hex_accum acc [] = Inr acc"
| "hex_accum acc (c # cs) =
     (case hex_value c of None \<Rightarrow> Inl ValueError | Some d \<Rightarrow> hex_accum (acc * 16 + int d) cs)"

text \<open>
  \<open>int(s, 16)\<close> on a string of hexadecimal digits.  Python also accepts a sign, a \<open>0x\<close>
  prefix, underscores between digits and surrounding whitespace; a prefix of a hexdigest
  has none of these, and here they are rejected like any other malformed literal.
\<close>

definition py_int_base16 :: "string \<Rightarrow> py_error + int" where
  "py_int_base16 s = (if s = [] then Inl ValueError else hex_accum 0 s)"

section \<open>rpc\_client.py\<close>

record TxSignatureInfo =
  signature :: string
  block_time :: "int option"

text \<open>One item of the RPC response: both attributes may be absent.\<close>

record rpc_item =
  item_signature :: "string option"
  item_block_time :: "int option"

text \<open>
  Everything outside the repository that one analysis reads: the address parser and the
  RPC call of the Solana client library (\<open>None\<close> from the parser stands for its exception,
  \<open>Inl\<close> from the call for an RPC or network error, \<open>Inr None\<close> for a response without a
  value), the clock reading \<open>int(time.time())\<close>, and SHA-256.
\<close>

record 'pk world =
  pubkey_from_string :: "string \<Rightarrow> 'pk option"
  get_signatures_for_address :: "'pk \<Rightarrow> int \<Rightarrow> py_error + rpc_item list option"
  clock :: int
  sha256 :: "8 word list \<Rightarrow> 256 word"

definition MAX_SIGNATURES_LIMIT :: int where
  "MAX_SIGNATURES_LIMIT = 100"

definition item_to_info :: "rpc_item \<Rightarrow> TxSignatureInfo" where
  "item_to_info item =
     \<lparr>signature = (case item_signature item of None \<Rightarrow> [] | Some s \<Rightarrow> s),
      block_time = item_block_time item\<rparr>"

definition get_recent_transactions ::
  "'pk world \<Rightarrow> string \<Rightarrow> int \<Rightarrow> py_error + TxSignatureInfo list" where
  "get_recent_transactions w wallet_address limit =
     (case pubkey_from_string w (strip wallet_address) of
        None \<Rightarrow> Inl ValueError
      | Some pubkey \<Rightarrow>
          (case get_signatures_for_address w pubkey limit of
             Inl e \<Rightarrow> Inl e
           | Inr None \<Rightarrow> Inr []
           | Inr (Some items) \<Rightarrow> Inr (map item_to_info items)))"

section \<open>analyzer.py\<close>

text \<open>
  The functions keep their names without the leading underscore; \<open>_wallet_age_months\<close>
  is \<open>wallet_age_months_of\<close>, since \<open>wallet_age_months\<close> is a field of the metrics, and
  takes the clock reading as its first argument.
\<close>

definition TX_COUNT_FOR_FULL_ACTIVITY :: int where
  "TX_COUNT_FOR_FULL_ACTIVITY = 100"

definition ACTIVITY_LEVEL_LOW_THRESHOLD :: pyfloat where
  "ACTIVITY_LEVEL_LOW_THRESHOLD = Fin 40"

definition ACTIVITY_LEVEL_HIGH_THRESHOLD :: pyfloat where
  "ACTIVITY_LEVEL_HIGH_THRESHOLD = Fin 70"

definition SECONDS_PER_MONTH :: int where
  "SECONDS_PER_MONTH = 30 * 24 * 3600"

definition MOCK_AGE_CAP_MONTHS :: int where
  "MOCK_AGE_CAP_MONTHS = 24"

definition RISK_NEW_WALLET :: string where
  "RISK_NEW_WALLET = ''new_wallet''"

definition RISK_LOW_ACTIVITY :: string where
  "RISK_LOW_ACTIVITY = ''low_activity''"

definition RISK_HIGH_CHURN :: string where
  "RISK_HIGH_CHURN = ''high_churn''"

definition RISK_SUSPICIOUS_PATTERNS :: string where
  "RISK_SUSPICIOUS_PATTERNS = ''suspicious_patterns''"

record WalletMetrics =
  tx_count :: int
  wallet_age_months :: int
  activity_score :: pyfloat
  activity_level :: string
  suspicious_behavior_count :: int
  risk_flags :: "string list"

text \<open>The float literal \<open>0.6\<close>: the binary64 number nearest to 6/10.\<close>

definition lit_0_6 :: pyfloat where
  "lit_0_6 = b64 (6 / 10)"

definition tx_count_to_activity_score :: "int \<Rightarrow> py_error + pyfloat" where
  "tx_count_to_activity_score n =
     (if n \<le> 0 then Inr (Fin 0)
      else if TX_COUNT_FOR_FULL_ACTIVITY \<le> n then Inr (Fin 100)
      else (case int_truediv n TX_COUNT_FOR_FULL_ACTIVITY of
              Inl e \<Rightarrow> Inl e
            | Inr ratio \<Rightarrow>
                (case float_pow ratio lit_0_6 of
                   Inl e \<Rightarrow> Inl e
                 | Inr p \<Rightarrow> py_round1 (py_min (Fin 100) (fmul (Fin 100) p)))))"

definition activity_score_to_level :: "pyfloat \<Rightarrow> string" where
  "activity_score_to_level score =
     (if flt score ACTIVITY_LEVEL_LOW_THRESHOLD then ''low''
      else if fle ACTIVITY_LEVEL_HIGH_THRESHOLD score then ''high''
      else ''medium'')"

text \<open>\<open>min(times) if times else None\<close> over the timestamps that are present.\<close>

definition oldest_block_time :: "TxSignatureInfo list \<Rightarrow> int option" where
  "oldest_block_time infos =
     (let times = concat (map (\<lambda>i. case block_time i of None \<Rightarrow> [] | Some t \<Rightarrow> [t]) infos)
      in if times = [] then None else Some (fold min (tl times) (hd times)))"

definition wallet_age_months_of :: "int \<Rightarrow> int option \<Rightarrow> py_error + int" where
  "wallet_age_months_of now oldest_ts =
     (case oldest_ts of
        None \<Rightarrow> Inr 0
      | Some ts \<Rightarrow>
          (if now \<le> ts then Inr 0
           else (case int_truediv (now - ts) SECONDS_PER_MONTH of
                   Inl e \<Rightarrow> Inl e
                 | Inr months \<Rightarrow>
                     (case py_int months of Inl e \<Rightarrow> Inl e | Inr k \<Rightarrow> Inr (max 0 k)))))"

definition mock_wallet_age_months :: "(8 word list \<Rightarrow> 256 word) \<Rightarrow> string \<Rightarrow> py_error + int" where
  "mock_wallet_age_months sha wallet =
     (let h = hexdigest (sha (encode_utf8 (strip wallet)))
      in (case py_int_base16 (take 8 h) of
            Inl e \<Rightarrow> Inl e
          | Inr v \<Rightarrow> Inr (v mod (MOCK_AGE_CAP_MONTHS + 1))))"

text \<open>The list \<open>flags\<close> is threaded through the four \<open>if\<close> statements, each appending at most once.\<close>

definition compute_risk_flags :: "int \<Rightarrow> int \<Rightarrow> pyfloat \<Rightarrow> string list" where
  "compute_risk_flags n age score =
     (let flags0 = [];
          flags1 = (if age < 3 then flags0 @ [RISK_NEW_WALLET] else flags0);
          flags2 = (if n < 5 then flags1 @ [RISK_LOW_ACTIVITY] else flags1);
          flags3 = (if fle (Fin 80) score \<and> age < 6 then flags2 @ [RISK_HIGH_CHURN] else flags2);
          flags4 = (if 0 < n \<and> n mod 17 = 0 \<and> age < 12
                    then flags3 @ [RISK_SUSPICIOUS_PATTERNS] else flags3)
      in flags4)"

definition analyze_wallet :: "'pk world \<Rightarrow> string \<Rightarrow> py_error + WalletMetrics" where
  "analyze_wallet w wallet0 =
     (let wallet = strip wallet0 in
      case get_recent_transactions w wallet MAX_SIGNATURES_LIMIT of
        Inl e \<Rightarrow> Inl e
      | Inr txs \<Rightarrow>
          (let n = int (length txs);
               oldest_ts = oldest_block_time txs
           in case (if oldest_ts \<noteq> None then wallet_age_months_of (clock w) oldest_ts
                    else mock_wallet_age_months (sha256 w) wallet) of
                Inl e \<Rightarrow> Inl e
              | Inr age \<Rightarrow>
                  (case tx_count_to_activity_score n of
                     Inl e \<Rightarrow> Inl e
                   | Inr score \<Rightarrow>
                       (let flags = compute_risk_flags n age score
                        in Inr \<lparr>tx_count = n,
                                wallet_age_months = age,
                                activity_score = score,
                                activity_level = activity_score_to_level score,
                                suspicious_behavior_count = int (length flags),
                                risk_flags = flags\<rparr>))))"

section \<open>scoring.py\<close>

definition WEIGHT_AGE :: pyfloat where
  "WEIGHT_AGE = b64 (30 / 100)"

definition WEIGHT_ACTIVITY :: pyfloat where
  "WEIGHT_ACTIVITY = b64 (50 / 100)"

definition WEIGHT_RISK :: pyfloat where
  "WEIGHT_RISK = b64 (20 / 100)"

definition AGE_SCORE_PER_MONTH :: pyfloat where
  "AGE_SCORE_PER_MONTH = Fin 4"

definition PENALTY_PER_FLAG :: pyfloat where
  "PENALTY_PER_FLAG = Fin 25"

definition THRESHOLD_LOW :: int where
  "THRESHOLD_LOW = 70"

definition THRESHOLD_MEDIUM :: int where
  "THRESHOLD_MEDIUM = 40"

text \<open>The local variable \<open>score_float\<close> of \<open>compute_trust_score\<close>.\<close>

definition score_float :: "WalletMetrics \<Rightarrow> py_error + pyfloat" where
  "score_float metrics =
     (case float_of_int (wallet_age_months metrics) of
        Inl e \<Rightarrow> Inl e
      | Inr age \<Rightarrow>
          (let age_component = py_min (Fin 100) (fmul age AGE_SCORE_PER_MONTH);
               activity_component = activity_score metrics
           in case float_of_int (suspicious_behavior_count metrics) of
                Inl e \<Rightarrow> Inl e
              | Inr cnt \<Rightarrow>
                  (let penalty = fmul cnt PENALTY_PER_FLAG;
                       risk_component = py_max (Fin 0) (fsub (Fin 100) penalty)
                   in Inr (fadd (fadd (fmul WEIGHT_AGE age_component)
                                      (fmul WEIGHT_ACTIVITY activity_component))
                                (fmul WEIGHT_RISK risk_component)))))"

definition risk_level_of :: "int \<Rightarrow> string" where
  "risk_level_of score =
     (if THRESHOLD_LOW \<le> score then ''Low''
      else if THRESHOLD_MEDIUM \<le> score then ''Medium''
      else ''High'')"

definition compute_trust_score :: "WalletMetrics \<Rightarrow> py_error + int \<times> string" where
  "compute_trust_score metrics =
     (case score_float metrics of
        Inl e \<Rightarrow> Inl e
      | Inr sf \<Rightarrow>
          (case py_round sf of
             Inl e \<Rightarrow> Inl e
           | Inr r \<Rightarrow> (let score = max 0 (min 100 r) in Inr (score, risk_level_of score))))"

section \<open>The score formula as the specification words it\<close>

text \<open>
  The specification computes the age and risk components on integers
  (\<open>min(100, wallet_age_months * 4)\<close> and \<open>max(0, 100 - suspicious_behavior_count * 25)\<close>),
  forms the weighted sum with the float weights 0.30, 0.50 and 0.20 from left to right,
  rounds it to an integer and clamps the integer to \<open>[0, 100]\<close>.
\<close>

definition spec_raw_score :: "WalletMetrics \<Rightarrow> pyfloat" where
  "spec_raw_score metrics =
     (let age_component = min 100 (wallet_age_months metrics * 4);
          activity_component = activity_score metrics;
          risk_component = max 0 (100 - suspicious_behavior_count metrics * 25)
      in fadd (fadd (fmul (b64 (30 / 100)) (Fin (of_int age_component)))
                    (fmul (b64 (50 / 100)) activity_component))
              (fmul (b64 (20 / 100)) (Fin (of_int risk_component))))"

definition spec_trust_score :: "WalletMetrics \<Rightarrow> py_error + int" where
  "spec_trust_score metrics =
     (case py_round (spec_raw_score metrics) of
        Inl e \<Rightarrow> Inl e
      | Inr r \<Rightarrow> Inr (max 0 (min 100 r)))"

definition spec_risk_level :: "int \<Rightarrow> string" where
  "spec_risk_level score =
     (if 70 \<le> score then ''Low''
      else if 40 \<le> score \<and> score < 70 then ''Medium''
      else ''High'')"

text \<open>
  The least positive integer that no longer converts to a float: it lies half-way between
  the largest float \<open>2 ^ 1024 - 2 ^ 971\<close> and \<open>2 ^ 1024\<close>, and the tie goes up.
\<close>

definition max_float_int :: int where
  "max_float_int = 2 ^ 1024 - 2 ^ 970"

section \<open>Auxiliary notions and sample inputs\<close>

text \<open>
  The order of floats up to NaN: it holds when either side is NaN, and otherwise says that
  the left side is not greater.  Every arithmetic operation preserves it in each argument.
\<close>

definition fmono :: "pyfloat \<Rightarrow> pyfloat \<Rightarrow> bool" where
  "fmono a b = (a = NaN \<or> b = NaN \<or> \<not> flt b a)"

text \<open>The value of the float literal \<open>0.6\<close>.\<close>

definition value_0_6 :: real where
  "value_0_6 = 5404319552844595 / 2 ^ 53"

text \<open>An old, fully active wallet without flags (scenario B of the specification).\<close>

definition metrics_B :: WalletMetrics where
  "metrics_B = \<lparr>tx_count = 100, wallet_age_months = 30, activity_score = Fin 100,
     activity_level = ''high'', suspicious_behavior_count = 0, risk_flags = []\<rparr>"

text \<open>A wallet whose age is an integer beyond the float range.\<close>

definition metrics_huge_age :: WalletMetrics where
  "metrics_huge_age = \<lparr>tx_count = 0, wallet_age_months = 2 ^ 1024, activity_score = Fin 0,
     activity_level = ''low'', suspicious_behavior_count = 1, risk_flags = [''low_activity'']\<rparr>"

text \<open>
  A world in which every string parses as an address, the RPC reports no transaction, and
  the digest function returns the SHA-256 digest of \<open>abc\<close> for every input.
\<close>

definition sample_world :: "string world" where
  "sample_world =
     \<lparr>pubkey_from_string = Some,
      get_signatures_for_address = (\<lambda>pubkey limit. Inr (Some [])),
      clock = 1700000000,
      sha256 = (\<lambda>bytes. 0xba7816bf8f01cfea414140de5dae2223b00361a396177a9cb410ff61f20015ad)\<rparr>"

text \<open>One month of age, an activity score of \<open>0.6\<close> and no flag.\<close>

definition metrics_tie :: WalletMetrics where
  "metrics_tie = \<lparr>tx_count = 10, wallet_age_months = 1, activity_score = lit_0_6,
     activity_level = ''low'', suspicious_behavior_count = 0, risk_flags = []\<rparr>"

section \<open>Rounding: monotonicity and exactness\<close>

lemma rne_of_int [simp]: "rne (of_int n) = n"
  by (simp add: rne_def)

lemma rne_bounds: "\<lfloor>x\<rfloor> \<le> rne x \<and> rne x \<le> \<lfloor>x\<rfloor> + 1"
  by (simp add: rne_def Let_def)

lemma rne_mono:
  assumes "x \<le> y"
  shows "rne x \<le> rne y"
proof (cases "\<lfloor>x\<rfloor> = \<lfloor>y\<rfloor>")
  case True
  then show ?thesis using assms by (auto simp: rne_def Let_def)
next
  case False
  with assms have "\<lfloor>x\<rfloor> + 1 \<le> \<lfloor>y\<rfloor>" using floor_mono [OF assms] by linarith
  then show ?thesis using rne_bounds [of x] rne_bounds [of y] by linarith
qed

lemma rne_minus: "rne (- x) = - rne x"
proof (cases "x \<in> \<int>")
  case True
  then obtain n where "x = of_int n" by (auto elim: Ints_cases)
  then show ?thesis by (simp flip: of_int_minus)
next
  case False
  then have ne: "x \<noteq> of_int \<lfloor>x\<rfloor>"
    by (metis Ints_of_int)
  then have f: "\<lfloor>- x\<rfloor> = - \<lfloor>x\<rfloor> - 1"
    by (simp add: floor_minus ceiling_altdef)
  show ?thesis
    using ne by (auto simp: rne_def Let_def f)
qed

lemma rne_abs_diff: "\<bar>of_int (rne x) - x\<bar> \<le> 1 / 2"
  by (auto simp: rne_def Let_def)

lemma two_powi_less_iff: "(2::real) powi a < 2 powi b \<longleftrightarrow> a < b"
proof
  assume l: "(2::real) powi a < 2 powi b"
  show "a < b"
  proof (rule ccontr)
    assume "\<not> a < b"
    then have "(2::real) powi b \<le> 2 powi a" by (intro power_int_increasing) simp_all
    with l show False by linarith
  qed
next
  assume "a < b"
  then show "(2::real) powi a < 2 powi b" by (intro power_int_strict_increasing) simp_all
qed

lemma two_powi_le_iff: "(2::real) powi a \<le> 2 powi b \<longleftrightarrow> a \<le> b"
  using two_powi_less_iff [of b a] by (simp add: not_less [symmetric])

lemma two_powi_pos [simp]: "0 < (2::real) powi a"
  by (rule zero_less_power_int) simp

lemma expo_abs: "expo \<bar>x\<bar> = expo x"
  by (simp add: expo_def)

lemma expo_ge1:
  assumes "1 \<le> (x::real)"
  shows "2 powi (expo x) \<le> x \<and> x < 2 powi (expo x + 1)"
proof -
  define n where "n = \<lfloor>x\<rfloor>"
  have n: "0 < n" using assms by (simp add: n_def)
  have e: "expo x = bitlen n - 1" using assms by (simp add: expo_def n_def)
  have b1: "1 \<le> bitlen n" using n bitlen_eq_zero_iff [of n] bitlen_nonneg [of n] by linarith
  from bitlen_bounds [OF n] have lo: "2 ^ nat (bitlen n - 1) \<le> n" and hi: "n < 2 ^ nat (bitlen n)"
    by auto
  have "(2::real) ^ nat (bitlen n - 1) \<le> of_int n"
    using lo by (metis of_int_le_iff of_int_numeral of_int_power)
  also have "\<dots> \<le> x" by (simp add: n_def)
  finally have L: "2 powi (expo x) \<le> x"
    using b1 by (simp add: e power_int_def)
  have "n + 1 \<le> 2 ^ nat (bitlen n)" using hi by simp
  then have "of_int (n + 1) \<le> (2::real) ^ nat (bitlen n)"
    by (metis of_int_le_iff of_int_numeral of_int_power)
  moreover have "x < of_int (n + 1)" by (simp add: n_def)
  ultimately have "x < 2 ^ nat (bitlen n)" by linarith
  then have U: "x < 2 powi (expo x + 1)"
    using b1 by (simp add: e power_int_def)
  from L U show ?thesis by simp
qed

lemma expo_lt1:
  assumes "0 < (x::real)" "x < 1"
  shows "2 powi (expo x) \<le> x \<and> x < 2 powi (expo x + 1)"
proof -
  define y where "y = 1 / x"
  have y: "1 < y" using assms by (simp add: y_def)
  define k where "k = expo y"
  from expo_ge1 [of y] y have kb: "2 powi k \<le> y" "y < 2 powi (k + 1)" by (auto simp: k_def)
  have "(2::real) powi 0 < 2 powi (k + 1)" using y kb(2) by simp
  then have k0: "0 \<le> k" by (simp only: two_powi_less_iff)
  have kk: "k = bitlen \<lfloor>1 / \<bar>x\<bar>\<rfloor> - 1"
    using y assms by (simp add: k_def expo_def y_def)
  have xy: "x = 1 / y" using assms by (simp add: y_def)
  have p: "(2::real) ^ nat k = 2 powi k" using k0 by (simp add: power_int_def)
  show ?thesis
  proof (cases "y = 2 powi k")
    case True
    then have "expo x = - k" using assms kk p by (simp add: expo_def Let_def y_def)
    moreover have "x = 2 powi (- k)" using True xy by (simp add: power_int_minus_divide)
    moreover have "(2::real) powi (- k) < 2 powi (- k + 1)"
      by (rule power_int_strict_increasing) simp_all
    ultimately show ?thesis by simp
  next
    case False
    then have e: "expo x = - k - 1" using assms kk p by (simp add: expo_def Let_def y_def)
    have lt: "2 powi k < y" using False kb by simp
    have "x < 1 / 2 powi k" unfolding xy using lt by (simp add: frac_less2)
    then have U: "x < 2 powi (expo x + 1)" by (simp add: e power_int_minus_divide)
    have "1 / 2 powi (k + 1) < x" unfolding xy using kb(2) y by (simp add: frac_less2)
    moreover have "(2::real) powi (- k - 1) = 1 / 2 powi (k + 1)"
      using power_int_minus_divide [of "2::real" "k + 1"] by simp
    ultimately have L: "2 powi (expo x) \<le> x"
      using e by simp
    from L U show ?thesis by simp
  qed
qed

lemma expo_bounds:
  assumes "x \<noteq> 0"
  shows "2 powi (expo x) \<le> \<bar>x\<bar>" and "\<bar>x\<bar> < 2 powi (expo x + 1)"
  using expo_ge1 [of "\<bar>x\<bar>"] expo_lt1 [of "\<bar>x\<bar>"] assms
  by (cases "1 \<le> \<bar>x\<bar>"; simp add: expo_abs)+

lemma expo_unique:
  assumes "2 powi e \<le> \<bar>x\<bar>" "\<bar>x\<bar> < 2 powi (e + 1)"
  shows "expo x = e"
proof -
  have pos: "0 < (2::real) powi e" by (rule zero_less_power_int) simp
  have x: "x \<noteq> 0"
  proof
    assume "x = 0"
    with assms(1) have "2 powi e \<le> (0::real)" by simp
    with pos show False by linarith
  qed
  from expo_bounds [OF x] assms
  have "(2::real) powi e < 2 powi (expo x + 1)" "(2::real) powi (expo x) < 2 powi (e + 1)"
    by linarith+
  then have "e < expo x + 1" "expo x < e + 1"
    by (simp_all add: two_powi_less_iff)
  then show ?thesis by simp
qed

lemma expo_mono:
  assumes "0 < x" "x \<le> y"
  shows "expo x \<le> expo y"
proof -
  have "2 powi (expo x) \<le> \<bar>x\<bar>" "\<bar>y\<bar> < 2 powi (expo y + 1)"
    using expo_bounds [of x] expo_bounds [of y] assms by auto
  then have "(2::real) powi (expo x) < 2 powi (expo y + 1)" using assms by linarith
  then show ?thesis by (simp add: two_powi_less_iff)
qed

lemma rd_nz: "x \<noteq> 0 \<Longrightarrow> rd x = of_int (rne (x * 2 powi (- ulp_exp x))) * 2 powi (ulp_exp x)"
  by (simp add: rd_def Let_def)

lemma rd_zero [simp]: "rd 0 = 0"
  by (simp add: rd_def)

lemma ulp_exp_minus: "ulp_exp (- x) = ulp_exp x"
  by (simp add: ulp_exp_def expo_def)

lemma rd_minus: "rd (- x) = - rd x"
  by (cases "x = 0") (simp_all add: rd_nz ulp_exp_minus rne_minus)

lemma grid_scale:
  assumes "q \<le> p"
  shows "of_int m * 2 powi p * 2 powi (- q) = (of_int (m * 2 ^ nat (p - q)) :: real)"
proof -
  have "(2::real) powi p * 2 powi (- q) = 2 powi (p - q)"
    by (simp add: power_int_diff power_int_minus field_simps)
  also have "\<dots> = 2 ^ nat (p - q)" using assms by (simp add: power_int_def)
  finally show ?thesis by (simp add: mult.assoc)
qed

text \<open>
  Rounding never crosses a number of the grid it rounds to: a multiple of \<open>2 powi p\<close> with
  \<open>p\<close> at least the exponent of the last place of \<open>x\<close>.
\<close>

lemma rd_le_grid:
  assumes "x \<noteq> 0" "x \<le> of_int m * 2 powi p" "ulp_exp x \<le> p"
  shows "rd x \<le> of_int m * 2 powi p"
proof -
  let ?q = "ulp_exp x"
  have "x * 2 powi (- ?q) \<le> of_int m * 2 powi p * 2 powi (- ?q)"
    using assms(2) by (intro mult_right_mono) simp_all
  also have "\<dots> = of_int (m * 2 ^ nat (p - ?q))" by (rule grid_scale [OF assms(3)])
  finally have "rne (x * 2 powi (- ?q)) \<le> m * 2 ^ nat (p - ?q)"
    using rne_mono rne_of_int by metis
  then have "(of_int (rne (x * 2 powi (- ?q))) :: real) \<le> of_int (m * 2 ^ nat (p - ?q))"
    by (simp only: of_int_le_iff)
  then have "of_int (rne (x * 2 powi (- ?q))) * 2 powi ?q
      \<le> (of_int (m * 2 ^ nat (p - ?q)) :: real) * 2 powi ?q"
    by (intro mult_right_mono) simp_all
  also have "\<dots> = of_int m * 2 powi p * 2 powi (- ?q) * 2 powi ?q"
    by (simp only: grid_scale [OF assms(3)])
  also have "\<dots> = of_int m * 2 powi p"
    by (simp add: power_int_minus)
  finally show ?thesis by (simp add: rd_nz [OF assms(1)])
qed

lemma rd_ge_grid:
  assumes "x \<noteq> 0" "of_int m * 2 powi p \<le> x" "ulp_exp x \<le> p"
  shows "of_int m * 2 powi p \<le> rd x"
proof -
  have "rd (- x) \<le> of_int (- m) * 2 powi p"
    using assms by (intro rd_le_grid) (simp_all add: ulp_exp_minus)
  then show ?thesis by (simp add: rd_minus)
qed

text \<open>Numbers with at most 53 significant bits above the subnormal spacing are not changed.\<close>

lemma rd_exact:
  assumes "\<bar>m\<bar> < 2 ^ 53" "- 1074 \<le> p"
  shows "rd (of_int m * 2 powi p) = of_int m * 2 powi p"
proof (cases "m = 0")
  case True
  then show ?thesis by simp
next
  case False
  let ?x = "of_int m * 2 powi p :: real"
  have nz: "?x \<noteq> 0" using False by simp
  have "\<bar>?x\<bar> = of_int \<bar>m\<bar> * 2 powi p" by (simp add: abs_mult)
  also have "\<dots> < 2 ^ 53 * 2 powi p"
    using assms(1) by (intro mult_strict_right_mono) (simp_all flip: of_int_less_iff [where 'a = real])
  also have "\<dots> = 2 powi (53 + p)" by (simp add: power_int_add)
  finally have "2 powi (expo ?x) < (2::real) powi (53 + p)"
    using expo_bounds(1) [OF nz] by linarith
  then have "expo ?x < 53 + p" by (simp add: two_powi_less_iff)
  then have q: "ulp_exp ?x \<le> p" using assms(2) by (simp add: ulp_exp_def)
  from rd_le_grid [OF nz _ q] rd_ge_grid [OF nz _ q] show ?thesis
    by (simp add: order_antisym)
qed

lemma rd_of_int: "\<bar>n\<bar> < 2 ^ 53 \<Longrightarrow> rd (of_int n) = of_int n"
  using rd_exact [of n 0] by simp

lemma rd_mono_pos:
  assumes "0 < x" "x \<le> y"
  shows "rd x \<le> rd y"
proof -
  have nz: "x \<noteq> 0" "y \<noteq> 0" using assms by auto
  have e: "expo x \<le> expo y" by (rule expo_mono [OF assms])
  show ?thesis
  proof (cases "ulp_exp x = ulp_exp y")
    case True
    have "x * 2 powi (- ulp_exp y) \<le> y * 2 powi (- ulp_exp y)"
      using assms(2) by (intro mult_right_mono) simp_all
    then have "rne (x * 2 powi (- ulp_exp y)) \<le> rne (y * 2 powi (- ulp_exp y))"
      by (rule rne_mono)
    then have "(of_int (rne (x * 2 powi (- ulp_exp y))) :: real) * 2 powi (ulp_exp y)
        \<le> of_int (rne (y * 2 powi (- ulp_exp y))) * 2 powi (ulp_exp y)"
      by (intro mult_right_mono) simp_all
    then show ?thesis by (simp add: rd_nz nz True)
  next
    case False
    with e have lt: "expo x < expo y" and big: "- 1022 < expo y"
      by (auto simp: ulp_exp_def max_def split: if_splits)
    let ?g = "of_int 1 * 2 powi (expo y) :: real"
    have "\<bar>x\<bar> < 2 powi (expo x + 1)" by (rule expo_bounds(2) [OF nz(1)])
    also have "\<dots> \<le> 2 powi (expo y)" using lt by (simp add: two_powi_le_iff)
    finally have "x \<le> ?g" using assms(1) by simp
    moreover have "ulp_exp x \<le> expo y" using lt big by (simp add: ulp_exp_def)
    ultimately have 1: "rd x \<le> ?g" by (intro rd_le_grid nz)
    have "?g \<le> y" using expo_bounds(1) [OF nz(2)] assms by simp
    moreover have "ulp_exp y \<le> expo y" using big by (simp add: ulp_exp_def)
    ultimately have 2: "?g \<le> rd y" by (intro rd_ge_grid nz)
    from 1 2 show ?thesis by linarith
  qed
qed

lemma rd_nonneg: "0 \<le> x \<Longrightarrow> 0 \<le> rd x"
  using rd_ge_grid [of x 0 "ulp_exp x"] by (cases "x = 0") simp_all

lemma rd_nonpos: "x \<le> 0 \<Longrightarrow> rd x \<le> 0"
  using rd_nonneg [of "- x"] by (simp add: rd_minus)

lemma rd_mono:
  assumes "x \<le> y"
  shows "rd x \<le> rd y"
proof -
  consider "0 < x" | "x \<le> 0" "0 \<le> y" | "y < 0" by linarith
  then show ?thesis
  proof cases
    case 1
    then show ?thesis using assms by (rule rd_mono_pos)
  next
    case 2
    then show ?thesis using rd_nonneg [of y] rd_nonpos [of x] by linarith
  next
    case 3
    then have "rd (- y) \<le> rd (- x)" using assms by (intro rd_mono_pos) simp_all
    then show ?thesis by (simp add: rd_minus)
  qed
qed

section \<open>Float constants and ranges\<close>

lemma rne_eqI: "\<bar>x - of_int k\<bar> < 1 / 2 \<Longrightarrow> rne x = k"
proof -
  assume a: "\<bar>x - of_int k\<bar> < 1 / 2"
  have "of_int k - 1 < x" "x < of_int k + 1" using a by linarith+
  then have "k - 1 \<le> \<lfloor>x\<rfloor>" "\<lfloor>x\<rfloor> \<le> k" by (simp_all add: le_floor_iff floor_le_iff)
  then have "\<lfloor>x\<rfloor> = k \<or> \<lfloor>x\<rfloor> = k - 1" by linarith
  moreover have "x - of_int k < 1 / 2" "of_int k - x < 1 / 2" using a by linarith+
  ultimately show ?thesis by (auto simp: rne_def Let_def)
qed

lemma rd_eqI:
  assumes "2 powi e \<le> \<bar>x\<bar>" "\<bar>x\<bar> < 2 powi (e + 1)" "- 1022 \<le> e"
    and "\<bar>x * 2 powi (52 - e) - of_int k\<bar> < 1 / 2"
  shows "rd x = of_int k * 2 powi (e - 52)"
proof -
  have e: "expo x = e" by (rule expo_unique [OF assms(1,2)])
  have nz: "x \<noteq> 0" using assms(1) two_powi_pos [of e] by (cases "x = 0") (simp, linarith)
  have q: "ulp_exp x = e - 52" using assms(3) by (simp add: ulp_exp_def e)
  show ?thesis using rne_eqI [OF assms(4)] by (simp add: rd_nz [OF nz] q)
qed

lemma WEIGHT_AGE_val: "WEIGHT_AGE = Fin (5404319552844595 / 2 ^ 54)"
proof -
  have "rd (30 / 100) = of_int 5404319552844595 * 2 powi (- 2 - 52)"
    by (rule rd_eqI) (simp_all add: power_int_minus_divide)
  then show ?thesis by (simp add: WEIGHT_AGE_def b64_def power_int_minus_divide)
qed

lemma WEIGHT_ACTIVITY_val: "WEIGHT_ACTIVITY = Fin (1 / 2)"
proof -
  have "rd (of_int 1 * 2 powi (- 1)) = of_int 1 * 2 powi (- 1)"
    by (rule rd_exact) simp_all
  then have "rd (50 / 100) = 1 / 2" by (simp add: power_int_minus_divide)
  then show ?thesis by (simp add: WEIGHT_ACTIVITY_def b64_def)
qed

lemma WEIGHT_RISK_val: "WEIGHT_RISK = Fin (7205759403792794 / 2 ^ 55)"
proof -
  have "rd (20 / 100) = of_int 7205759403792794 * 2 powi (- 3 - 52)"
    by (rule rd_eqI) (simp_all add: power_int_minus_divide)
  then show ?thesis by (simp add: WEIGHT_RISK_def b64_def power_int_minus_divide)
qed

lemma lit_0_6_val: "lit_0_6 = Fin (5404319552844595 / 2 ^ 53)"
proof -
  have "rd (6 / 10) = of_int 5404319552844595 * 2 powi (- 1 - 52)"
    by (rule rd_eqI) (simp_all add: power_int_minus_divide)
  then show ?thesis by (simp add: lit_0_6_def b64_def power_int_minus_divide)
qed

lemma rd_age_top: "rd (5404319552844595 / 2 ^ 54 * 100) = 30"
proof -
  have "rd (5404319552844595 / 2 ^ 54 * 100) = of_int 8444249301319680 * 2 powi (4 - 52)"
    by (rule rd_eqI) (simp_all add: power_int_minus_divide)
  then show ?thesis by (simp add: power_int_minus_divide)
qed

lemma rd_risk_top: "rd (7205759403792794 / 2 ^ 55 * 100) = 20"
proof -
  have "rd (7205759403792794 / 2 ^ 55 * 100) = of_int 5629499534213120 * 2 powi (4 - 52)"
    by (rule rd_eqI) (simp_all add: power_int_minus_divide)
  then show ?thesis by (simp add: power_int_minus_divide)
qed

lemma rd_small_int: "\<bar>n\<bar> \<le> 1000 \<Longrightarrow> rd (of_int n) = of_int n"
  by (rule rd_of_int) simp

lemma rd_numeral [simp]: "rd 100 = 100" "rd 80 = 80" "rd 50 = 50" "rd 30 = 30" "rd 20 = 20"
  "rd 26 = 26" "rd 104 = 104" "rd 5 = 5" "rd 125 = 125" "rd 25 = 25" "rd 1 = 1" "rd 66 = 66"
  using rd_small_int [of 100] rd_small_int [of 80] rd_small_int [of 50] rd_small_int [of 30]
    rd_small_int [of 20] rd_small_int [of 26] rd_small_int [of 104] rd_small_int [of 5]
    rd_small_int [of 125] rd_small_int [of 25] rd_small_int [of 1] rd_small_int [of 66]
  by simp_all

lemma b64_Fin: "\<bar>rd x\<bar> < 2 ^ 1024 \<Longrightarrow> b64 x = Fin (rd x)"
  by (simp add: b64_def Let_def)

lemma b64_range:
  assumes "lo \<le> x" "x \<le> hi" "L \<le> rd lo" "rd hi \<le> H" "- (2 ^ 1024) < L" "H < 2 ^ 1024"
  shows "b64 x = Fin (rd x) \<and> L \<le> rd x \<and> rd x \<le> H"
proof -
  have "L \<le> rd x" "rd x \<le> H"
    using rd_mono [OF assms(1)] rd_mono [OF assms(2)] assms(3,4) by linarith+
  then show ?thesis using assms(5,6) by (simp add: b64_Fin)
qed

lemma b64_cases:
  obtains (fin) "b64 x = Fin (rd x)" "\<bar>rd x\<bar> < 2 ^ 1024"
  | (pinf) "b64 x = PInf" "2 ^ 1024 \<le> rd x"
  | (ninf) "b64 x = NInf" "rd x \<le> - (2 ^ 1024)"
  by (cases "2 ^ 1024 \<le> \<bar>rd x\<bar>"; cases "0 < rd x") (auto simp: b64_def Let_def)

lemma float_of_int_Inr:
  assumes "float_of_int n = Inr f"
  shows "f = Fin (rd (of_int n))"
  using assms by (cases "of_int n :: real" rule: b64_cases) (auto simp: float_of_int_def)

lemma age_component_range:
  assumes "0 \<le> y"
  shows "\<exists>c. py_min (Fin 100) (fmul (Fin y) (Fin 4)) = Fin c \<and> 0 \<le> c \<and> c \<le> 100"
proof -
  have nn: "0 \<le> rd (y * 4)" using assms by (intro rd_nonneg) simp
  show ?thesis
    using nn by (cases "y * 4" rule: b64_cases) (auto simp: py_min_def)
qed

lemma risk_component_range:
  assumes "0 \<le> k"
  shows "\<exists>r. py_max (Fin 0) (fsub (Fin 100) (fmul (Fin k) (Fin 25))) = Fin r \<and> 0 \<le> r \<and> r \<le> 100"
proof -
  have nn: "0 \<le> rd (k * 25)" using assms by (intro rd_nonneg) simp
  show ?thesis
  proof (cases "k * 25" rule: b64_cases)
    case fin
    have le: "rd (100 - rd (k * 25)) \<le> 100"
      using rd_mono [of "100 - rd (k * 25)" 100] nn by simp
    show ?thesis
      using le fin by (cases "100 - rd (k * 25)" rule: b64_cases) (auto simp: py_max_def fsub_def)
  next
    case pinf
    then show ?thesis by (simp add: py_max_def fsub_def)
  next
    case ninf
    with nn show ?thesis by simp
  qed
qed

lemma weighted_age_range:
  assumes "0 \<le> c" "c \<le> 100"
  shows "\<exists>t. fmul WEIGHT_AGE (Fin c) = Fin t \<and> 0 \<le> t \<and> t \<le> 30"
proof -
  let ?w = "5404319552844595 / 2 ^ 54 :: real"
  have top: "rd (?w * 100) \<le> 30" using rd_age_top by simp
  have "b64 (?w * c) = Fin (rd (?w * c)) \<and> 0 \<le> rd (?w * c) \<and> rd (?w * c) \<le> 30"
    using assms by (intro b64_range [where lo = 0 and hi = "?w * 100"] top) simp_all
  then show ?thesis by (simp add: WEIGHT_AGE_val)
qed

lemma weighted_activity_range:
  assumes "0 \<le> a" "a \<le> 100"
  shows "\<exists>t. fmul WEIGHT_ACTIVITY (Fin a) = Fin t \<and> 0 \<le> t \<and> t \<le> 50"
proof -
  have "b64 (1 / 2 * a) = Fin (rd (1 / 2 * a)) \<and> 0 \<le> rd (1 / 2 * a) \<and> rd (1 / 2 * a) \<le> 50"
    using assms by (intro b64_range [where lo = 0 and hi = 50]) simp_all
  then show ?thesis by (simp add: WEIGHT_ACTIVITY_val)
qed

lemma weighted_risk_range:
  assumes "0 \<le> r" "r \<le> 100"
  shows "\<exists>t. fmul WEIGHT_RISK (Fin r) = Fin t \<and> 0 \<le> t \<and> t \<le> 20"
proof -
  let ?w = "7205759403792794 / 2 ^ 55 :: real"
  have top: "rd (?w * 100) \<le> 20" using rd_risk_top by simp
  have "b64 (?w * r) = Fin (rd (?w * r)) \<and> 0 \<le> rd (?w * r) \<and> rd (?w * r) \<le> 20"
    using assms by (intro b64_range [where lo = 0 and hi = "?w * 100"] top) simp_all
  then show ?thesis by (simp add: WEIGHT_RISK_val)
qed

lemma fadd_range:
  assumes "0 \<le> x" "x \<le> X" "0 \<le> y" "y \<le> Y" "rd (X + Y) = X + Y" "X + Y < 2 ^ 1024"
  shows "\<exists>s. fadd (Fin x) (Fin y) = Fin s \<and> 0 \<le> s \<and> s \<le> X + Y"
proof -
  have "b64 (x + y) = Fin (rd (x + y)) \<and> 0 \<le> rd (x + y) \<and> rd (x + y) \<le> X + Y"
    using assms by (intro b64_range [where lo = 0 and hi = "X + Y"]) simp_all
  then show ?thesis by simp
qed

lemma score_float_range:
  assumes "0 \<le> wallet_age_months m" "activity_score m = Fin a" "0 \<le> a" "a \<le> 100"
    "0 \<le> suspicious_behavior_count m" "score_float m = Inr sf"
  shows "\<exists>s. sf = Fin s \<and> 0 \<le> s \<and> s \<le> 100"
proof -
  from assms(6) obtain fa fc where fa: "float_of_int (wallet_age_months m) = Inr fa"
    and fc: "float_of_int (suspicious_behavior_count m) = Inr fc"
    by (auto simp: score_float_def Let_def split: sum.splits)
  have fa': "fa = Fin (rd (of_int (wallet_age_months m)))" by (rule float_of_int_Inr [OF fa])
  have fc': "fc = Fin (rd (of_int (suspicious_behavior_count m)))" by (rule float_of_int_Inr [OF fc])
  obtain c where c: "py_min (Fin 100) (fmul fa (Fin 4)) = Fin c" "0 \<le> c" "c \<le> 100"
    using age_component_range [of "rd (of_int (wallet_age_months m))"] assms(1)
    by (auto simp: fa' rd_nonneg)
  obtain r where r: "py_max (Fin 0) (fsub (Fin 100) (fmul fc (Fin 25))) = Fin r" "0 \<le> r" "r \<le> 100"
    using risk_component_range [of "rd (of_int (suspicious_behavior_count m))"] assms(5)
    by (auto simp: fc' rd_nonneg)
  obtain t1 where t1: "fmul WEIGHT_AGE (Fin c) = Fin t1" "0 \<le> t1" "t1 \<le> 30"
    using weighted_age_range [OF c(2,3)] by auto
  obtain t2 where t2: "fmul WEIGHT_ACTIVITY (Fin a) = Fin t2" "0 \<le> t2" "t2 \<le> 50"
    using weighted_activity_range [OF assms(3,4)] by auto
  obtain t3 where t3: "fmul WEIGHT_RISK (Fin r) = Fin t3" "0 \<le> t3" "t3 \<le> 20"
    using weighted_risk_range [OF r(2,3)] by auto
  obtain s1 where s1: "fadd (Fin t1) (Fin t2) = Fin s1" "0 \<le> s1" "s1 \<le> 80"
    using fadd_range [OF t1(2,3) t2(2,3)] by auto
  obtain s2 where s2: "fadd (Fin s1) (Fin t3) = Fin s2" "0 \<le> s2" "s2 \<le> 100"
    using fadd_range [OF s1(2,3) t3(2,3)] by auto
  have "score_float m = Inr (Fin s2)"
    by (simp add: score_float_def Let_def fa fc AGE_SCORE_PER_MONTH_def PENALTY_PER_FLAG_def
        c r assms(2) t1 t2 t3 s1 s2 del: fadd.simps fmul.simps)
  with assms(6) have "sf = Fin s2" by simp
  with s2(2,3) show ?thesis by blast
qed

lemma flt_PInf_left [simp]: "flt PInf b = False"
  by (cases b) simp_all

lemma flt_NInf_right [simp]: "flt a NInf = False"
  by (cases a) simp_all

lemma b64_mono: "x \<le> y \<Longrightarrow> \<not> flt (b64 y) (b64 x)"
  using rd_mono [of x y]
  by (cases x rule: b64_cases; cases y rule: b64_cases) auto

lemma b64_not_NaN [simp]: "b64 x \<noteq> NaN"
  by (cases x rule: b64_cases) auto

lemma fmono_refl [simp]: "fmono a a"
  by (cases a) (simp_all add: fmono_def)

lemma fadd_mono: "fmono a b \<Longrightarrow> fmono (fadd a c) (fadd b c)"
  by (cases a; cases b; cases c) (auto simp: fmono_def b64_mono)

lemma py_round_mono:
  assumes "fmono a b" "py_round a = Inr r1" "py_round b = Inr r2"
  shows "r1 \<le> r2"
  using assms by (cases a; cases b) (auto simp: fmono_def py_round_def intro: rne_mono)

lemma age_component_mono:
  assumes "0 \<le> y1" "y1 \<le> y2"
  shows "\<exists>c1 c2. py_min (Fin 100) (fmul (Fin y1) (Fin 4)) = Fin c1 \<and>
           py_min (Fin 100) (fmul (Fin y2) (Fin 4)) = Fin c2 \<and> 0 \<le> c1 \<and> c1 \<le> c2 \<and> c2 \<le> 100"
proof -
  have nn: "0 \<le> rd (y1 * 4)" "0 \<le> rd (y2 * 4)" using assms by (auto intro!: rd_nonneg)
  have le: "rd (y1 * 4) \<le> rd (y2 * 4)" using assms by (intro rd_mono) simp
  show ?thesis
    using nn le
    by (cases "y1 * 4" rule: b64_cases; cases "y2 * 4" rule: b64_cases) (auto simp: py_min_def)
qed

lemma rne_le: "x < of_int k + 1 / 2 \<Longrightarrow> rne x \<le> k"
proof -
  assume a: "x < of_int k + 1 / 2"
  then have "\<lfloor>x\<rfloor> \<le> k" by (simp add: floor_le_iff)
  then have "\<lfloor>x\<rfloor> = k \<or> \<lfloor>x\<rfloor> + 1 \<le> k" by linarith
  then show ?thesis
  proof
    assume "\<lfloor>x\<rfloor> = k"
    then show ?thesis using a by (auto simp: rne_def Let_def)
  next
    assume "\<lfloor>x\<rfloor> + 1 \<le> k"
    then show ?thesis using rne_bounds [of x] by linarith
  qed
qed

lemma rd_below_overflow:
  assumes "0 \<le> x" "x < 2 ^ 1024 - 2 ^ 970"
  shows "rd x < 2 ^ 1024"
proof (cases "x < 2 ^ 1023")
  case True
  have "rd (of_int 1 * 2 powi 1023) = of_int 1 * 2 powi 1023" by (rule rd_exact) simp_all
  then have "rd (2 ^ 1023) = 2 ^ 1023" by simp
  then have "rd x \<le> 2 ^ 1023" using rd_mono [of x "2 ^ 1023"] True by simp
  then show ?thesis by simp
next
  case False
  then have lo: "2 powi 1023 \<le> \<bar>x\<bar>" by simp
  have hi: "\<bar>x\<bar> < 2 powi (1023 + 1)" using assms by simp
  have e: "expo x = 1023" by (rule expo_unique [OF lo hi])
  have nz: "x \<noteq> 0" using False by auto
  have q: "ulp_exp x = 971" by (simp add: ulp_exp_def e)
  have "x * 2 powi (- 971) < (2 ^ 1024 - 2 ^ 970) * 2 powi (- 971)"
    using assms(2) by (intro mult_strict_right_mono) simp_all
  also have "\<dots> = of_int (2 ^ 53 - 1) + 1 / 2"
    by (simp add: power_int_minus_divide)
  finally have "rne (x * 2 powi (- 971)) \<le> 2 ^ 53 - 1" by (rule rne_le)
  then have "(of_int (rne (x * 2 powi (- 971))) :: real) \<le> of_int (2 ^ 53 - 1)"
    by (simp only: of_int_le_iff)
  then have "of_int (rne (x * 2 powi (- 971))) * 2 powi 971 \<le> (of_int (2 ^ 53 - 1) :: real) * 2 powi 971"
    by (intro mult_right_mono) simp_all
  then have "rd x \<le> of_int (2 ^ 53 - 1) * 2 powi 971" by (simp add: rd_nz [OF nz] q)
  also have "\<dots> < 2 ^ 1024" by simp
  finally show ?thesis .
qed

lemma float_of_int_ok:
  assumes "0 \<le> n" "n < max_float_int"
  shows "float_of_int n = Inr (Fin (rd (of_int n)))"
proof -
  have "(of_int n :: real) < of_int max_float_int" using assms(2) by (simp only: of_int_less_iff)
  then have "(of_int n :: real) < 2 ^ 1024 - 2 ^ 970" by (simp add: max_float_int_def)
  then have "rd (of_int n) < 2 ^ 1024" using assms(1) by (intro rd_below_overflow) simp_all
  moreover have "0 \<le> rd (of_int n)" using assms(1) by (intro rd_nonneg) simp
  ultimately show ?thesis by (simp add: float_of_int_def b64_Fin)
qed

lemma b64_of_small_int: "\<bar>n\<bar> \<le> 1000 \<Longrightarrow> b64 (of_int n) = Fin (of_int n)"
proof -
  assume a: "\<bar>n\<bar> \<le> 1000"
  then have "\<bar>of_int n :: real\<bar> \<le> 1000"
    by (metis of_int_abs of_int_le_iff of_int_numeral)
  then have "\<bar>of_int n :: real\<bar> < 2 ^ 1024" by simp
  then show ?thesis using rd_small_int [OF a] by (simp add: b64_Fin)
qed

lemma age_component_exact:
  assumes "0 \<le> n"
  shows "py_min (Fin 100) (fmul (Fin (rd (of_int n))) (Fin 4)) = Fin (of_int (min 100 (n * 4)))"
proof (cases "n \<le> 25")
  case True
  then have "fmul (Fin (rd (of_int n))) (Fin 4) = b64 (of_int (n * 4))"
    using assms by (simp add: rd_small_int)
  also have "\<dots> = Fin (of_int (n * 4))" using True assms by (intro b64_of_small_int) simp
  finally show ?thesis by (simp add: py_min_def min_def)
next
  case False
  then have "(26::real) \<le> of_int n" by simp
  then have "26 \<le> rd (of_int n)" using rd_mono [of 26 "of_int n"] by simp
  then have "104 \<le> rd (of_int n) * 4" by simp
  then have big: "104 \<le> rd (rd (of_int n) * 4)" using rd_mono [of 104 "rd (of_int n) * 4"] by simp
  have "py_min (Fin 100) (fmul (Fin (rd (of_int n))) (Fin 4)) = Fin 100"
    using big by (cases "rd (of_int n) * 4" rule: b64_cases) (auto simp: py_min_def)
  then show ?thesis using False by (simp add: min_def)
qed

lemma risk_component_exact:
  assumes "0 \<le> n"
  shows "py_max (Fin 0) (fsub (Fin 100) (fmul (Fin (rd (of_int n))) (Fin 25)))
           = Fin (of_int (max 0 (100 - n * 25)))"
proof (cases "n \<le> 4")
  case True
  then have "fmul (Fin (rd (of_int n))) (Fin 25) = b64 (of_int (n * 25))"
    using assms by (simp add: rd_small_int)
  also have "\<dots> = Fin (of_int (n * 25))" using True assms by (intro b64_of_small_int) simp
  finally have "fsub (Fin 100) (fmul (Fin (rd (of_int n))) (Fin 25)) = b64 (of_int (100 - n * 25))"
    by (simp add: fsub_def)
  also have "\<dots> = Fin (of_int (100 - n * 25))" using True assms by (intro b64_of_small_int) simp
  finally show ?thesis by (simp add: py_max_def max_def)
next
  case False
  then have "(5::real) \<le> of_int n" by simp
  then have "5 \<le> rd (of_int n)" using rd_mono [of 5 "of_int n"] by simp
  then have "125 \<le> rd (of_int n) * 25" by simp
  then have big: "125 \<le> rd (rd (of_int n) * 25)" using rd_mono [of 125 "rd (of_int n) * 25"] by simp
  have "py_max (Fin 0) (fsub (Fin 100) (fmul (Fin (rd (of_int n))) (Fin 25))) = Fin 0"
  proof (cases "rd (of_int n) * 25" rule: b64_cases)
    case fin
    have "rd (100 - rd (rd (of_int n) * 25)) \<le> rd 0"
      using big by (intro rd_mono) simp
    then have neg: "rd (100 - rd (rd (of_int n) * 25)) \<le> 0" by simp
    show ?thesis
      using neg fin by (cases "100 - rd (rd (of_int n) * 25)" rule: b64_cases)
        (auto simp: py_max_def fsub_def)
  next
    case pinf
    then show ?thesis by (simp add: py_max_def fsub_def)
  next
    case ninf
    with big show ?thesis by simp
  qed
  then show ?thesis using False by (simp add: max_def)
qed

lemma risk_level_of_eq_spec: "risk_level_of s = spec_risk_level s"
  by (simp add: risk_level_of_def spec_risk_level_def THRESHOLD_LOW_def THRESHOLD_MEDIUM_def)

lemma score_float_eq_spec:
  assumes "0 \<le> wallet_age_months m" "wallet_age_months m < max_float_int"
    "0 \<le> suspicious_behavior_count m" "suspicious_behavior_count m < max_float_int"
  shows "score_float m = Inr (spec_raw_score m)"
  using assms
  by (simp add: score_float_def spec_raw_score_def Let_def float_of_int_ok
      AGE_SCORE_PER_MONTH_def PENALTY_PER_FLAG_def age_component_exact risk_component_exact
      WEIGHT_AGE_def WEIGHT_ACTIVITY_def WEIGHT_RISK_def del: fadd.simps fmul.simps)

section \<open>Risk flags\<close>

lemmas flag_names =
  RISK_NEW_WALLET_def RISK_LOW_ACTIVITY_def RISK_HIGH_CHURN_def RISK_SUSPICIOUS_PATTERNS_def

text \<open>
  Claim C4.  For every transaction count, wallet age and activity score, the list returned
  by the risk-flag computation consists of exactly these flags in exactly this order:
  \<open>new_wallet\<close> iff the age is below 3; \<open>low_activity\<close> iff the count is below 5;
  \<open>high_churn\<close> iff the activity score is at least 80.0 and the age is below 6;
  \<open>suspicious_patterns\<close> iff the count is positive, a multiple of 17, and the age is below
  12.  Each of the four segments depends on its own condition only.
\<close>

theorem compute_risk_flags_exact:
  "compute_risk_flags n age score =
     (if age < 3 then [''new_wallet''] else []) @
     (if n < 5 then [''low_activity''] else []) @
     (if fle (Fin 80) score \<and> age < 6 then [''high_churn''] else []) @
     (if 0 < n \<and> n mod 17 = 0 \<and> age < 12 then [''suspicious_patterns''] else [])"
  by (simp add: compute_risk_flags_def flag_names)

theorem compute_risk_flags_exact_witness:
  "compute_risk_flags 17 11 (Fin (69 / 2)) = [''suspicious_patterns'']"
  using compute_risk_flags_exact [of 17 11 "Fin (69 / 2)"] by (simp add: fle_def)

section \<open>Trust score\<close>

lemma b64_numeral [simp]:
  "b64 0 = Fin 0" "b64 20 = Fin 20" "b64 30 = Fin 30" "b64 50 = Fin 50" "b64 70 = Fin 70"
  "b64 80 = Fin 80" "b64 100 = Fin 100" "b64 120 = Fin 120"
  using b64_of_small_int [of 0] b64_of_small_int [of 20] b64_of_small_int [of 30]
    b64_of_small_int [of 50] b64_of_small_int [of 70] b64_of_small_int [of 80]
    b64_of_small_int [of 100] b64_of_small_int [of 120]
  by simp_all

lemma weighted_top:
  "fmul WEIGHT_AGE (Fin 100) = Fin 30" "fmul WEIGHT_ACTIVITY (Fin 100) = Fin 50"
  "fmul WEIGHT_RISK (Fin 100) = Fin 20" "fmul WEIGHT_AGE (Fin 0) = Fin 0"
proof -
  have "b64 (5404319552844595 / 2 ^ 54 * 100) = Fin 30"
    using rd_age_top by (simp add: b64_def)
  then show "fmul WEIGHT_AGE (Fin 100) = Fin 30" by (simp add: WEIGHT_AGE_val)
  show "fmul WEIGHT_ACTIVITY (Fin 100) = Fin 50" by (simp add: WEIGHT_ACTIVITY_val)
  have "b64 (7205759403792794 / 2 ^ 55 * 100) = Fin 20"
    using rd_risk_top by (simp add: b64_def)
  then show "fmul WEIGHT_RISK (Fin 100) = Fin 20" by (simp add: WEIGHT_RISK_val)
  show "fmul WEIGHT_AGE (Fin 0) = Fin 0" by (simp add: WEIGHT_AGE_val)
qed

lemma float_of_int_numeral [simp]:
  "float_of_int 0 = Inr (Fin 0)" "float_of_int 30 = Inr (Fin 30)"
  using b64_of_small_int [of 0] b64_of_small_int [of 30] by (simp_all add: float_of_int_def)

lemma score_float_B: "score_float metrics_B = Inr (Fin 100)"
  by (simp add: score_float_def metrics_B_def Let_def AGE_SCORE_PER_MONTH_def PENALTY_PER_FLAG_def
      py_min_def py_max_def fsub_def weighted_top)

lemma score_float_B0: "score_float (metrics_B\<lparr>wallet_age_months := 0\<rparr>) = Inr (Fin 70)"
  by (simp add: score_float_def metrics_B_def Let_def AGE_SCORE_PER_MONTH_def PENALTY_PER_FLAG_def
      py_min_def py_max_def fsub_def weighted_top)

lemma rne_numeral [simp]: "rne 100 = 100" "rne 70 = 70" "rne 0 = 0"
  using rne_of_int [of 100] rne_of_int [of 70] rne_of_int [of 0] by simp_all

lemma compute_B: "compute_trust_score metrics_B = Inr (100, ''Low'')"
  by (simp add: compute_trust_score_def score_float_B py_round_def risk_level_of_def
      THRESHOLD_LOW_def)

lemma compute_B0: "compute_trust_score (metrics_B\<lparr>wallet_age_months := 0\<rparr>) = Inr (70, ''Low'')"
  by (simp add: compute_trust_score_def score_float_B0 py_round_def risk_level_of_def
      THRESHOLD_LOW_def)

lemma float_of_int_overflow: "float_of_int (2 ^ 1024) = Inl OverflowError"
proof -
  have "rd (of_int 1 * 2 powi 1024) = of_int 1 * 2 powi 1024"
    by (rule rd_exact) simp_all
  then have "rd (2 ^ 1024) = 2 ^ 1024" by simp
  then show ?thesis by (simp add: float_of_int_def b64_def)
qed

lemma spec_trust_score_B: "spec_trust_score metrics_B = Inr 100"
proof -
  have "score_float metrics_B = Inr (spec_raw_score metrics_B)"
    by (rule score_float_eq_spec) (simp_all add: metrics_B_def max_float_int_def)
  then have "spec_raw_score metrics_B = Fin 100" by (simp add: score_float_B)
  then show ?thesis by (simp add: spec_trust_score_def py_round_def)
qed

lemma spec_raw_score_range:
  assumes "0 \<le> wallet_age_months m" "activity_score m = Fin a" "0 \<le> a" "a \<le> 100"
    "0 \<le> suspicious_behavior_count m"
  shows "\<exists>x. spec_raw_score m = Fin x \<and> 0 \<le> x \<and> x \<le> 100"
proof -
  define c :: real where "c = of_int (min 100 (wallet_age_months m * 4))"
  define r :: real where "r = of_int (max 0 (100 - suspicious_behavior_count m * 25))"
  have c: "0 \<le> c" "c \<le> 100" using assms(1) by (simp_all add: c_def)
  have r: "0 \<le> r" "r \<le> 100" using assms(5) by (simp_all add: r_def)
  obtain t1 where t1: "fmul WEIGHT_AGE (Fin c) = Fin t1" "0 \<le> t1" "t1 \<le> 30"
    using weighted_age_range [OF c] by auto
  obtain t2 where t2: "fmul WEIGHT_ACTIVITY (Fin a) = Fin t2" "0 \<le> t2" "t2 \<le> 50"
    using weighted_activity_range [OF assms(3,4)] by auto
  obtain t3 where t3: "fmul WEIGHT_RISK (Fin r) = Fin t3" "0 \<le> t3" "t3 \<le> 20"
    using weighted_risk_range [OF r] by auto
  obtain s1 where s1: "fadd (Fin t1) (Fin t2) = Fin s1" "0 \<le> s1" "s1 \<le> 80"
    using fadd_range [OF t1(2,3) t2(2,3)] by auto
  obtain s2 where s2: "fadd (Fin s1) (Fin t3) = Fin s2" "0 \<le> s2" "s2 \<le> 100"
    using fadd_range [OF s1(2,3) t3(2,3)] by auto
  have "spec_raw_score m = Fin s2"
    unfolding spec_raw_score_def Let_def assms(2) WEIGHT_AGE_def [symmetric]
      WEIGHT_ACTIVITY_def [symmetric] WEIGHT_RISK_def [symmetric] c_def [symmetric]
      r_def [symmetric]
    by (simp only: t1 t2 t3 s1 s2)
  with s2(2,3) show ?thesis by blast
qed

text \<open>
  Claim C8.  For every WalletMetrics with a non-negative age, an activity score in
  \<open>[0.0, 100.0]\<close> and a non-negative count of suspicious behaviours, the weighted sum, once
  rounded, already lies in \<open>[0, 100]\<close>, so that the final \<open>max(0, min(100, ...))\<close> returns its
  argument unchanged.  This holds for the sum as the formula writes it and for the variable
  \<open>score_float\<close> of the code whenever it is computed.
\<close>

theorem clamp_is_identity:
  assumes "0 \<le> wallet_age_months m" "activity_score m = Fin a" "0 \<le> a" "a \<le> 100"
    "0 \<le> suspicious_behavior_count m"
  shows "(\<exists>r. py_round (spec_raw_score m) = Inr r \<and> 0 \<le> r \<and> r \<le> 100 \<and> max 0 (min 100 r) = r) \<and>
         (\<forall>sf. score_float m = Inr sf \<longrightarrow>
            (\<exists>r. py_round sf = Inr r \<and> 0 \<le> r \<and> r \<le> 100 \<and> max 0 (min 100 r) = r))"
proof -
  have round: "\<exists>r. py_round (Fin s) = Inr r \<and> 0 \<le> r \<and> r \<le> 100 \<and> max 0 (min 100 r) = r"
    if "0 \<le> s" "s \<le> 100" for s
  proof -
    have "rne 0 \<le> rne s" using that(1) by (rule rne_mono)
    moreover have "rne s \<le> rne 100" using that(2) by (rule rne_mono)
    ultimately have "0 \<le> rne s" "rne s \<le> 100" by simp_all
    then show ?thesis by (simp add: py_round_def)
  qed
  from spec_raw_score_range [OF assms] round
  have 1: "\<exists>r. py_round (spec_raw_score m) = Inr r \<and> 0 \<le> r \<and> r \<le> 100 \<and> max 0 (min 100 r) = r"
    by auto
  have 2: "\<exists>r. py_round sf = Inr r \<and> 0 \<le> r \<and> r \<le> 100 \<and> max 0 (min 100 r) = r"
    if "score_float m = Inr sf" for sf
    using score_float_range [OF assms that] round by auto
  from 1 2 show ?thesis by blast
qed

theorem clamp_is_identity_witness:
  "score_float metrics_B = Inr (Fin 100) \<and> py_round (Fin 100) = Inr 100 \<and>
   max 0 (min 100 (100 :: int)) = 100"
  using clamp_is_identity [of metrics_B 100] score_float_B
  by (simp add: metrics_B_def py_round_def)

text \<open>
  Claim C7.  With the activity score and the count of suspicious behaviours held fixed,
  and two ages \<open>0 \<le> a1 \<le> a2\<close>, the trust score returned for age \<open>a1\<close> is at most the
  trust score returned for age \<open>a2\<close>.
\<close>

theorem trust_score_monotone_in_age:
  assumes "0 \<le> a1" "a1 \<le> a2"
    and "compute_trust_score (m\<lparr>wallet_age_months := a1\<rparr>) = Inr (s1, l1)"
    and "compute_trust_score (m\<lparr>wallet_age_months := a2\<rparr>) = Inr (s2, l2)"
  shows "s1 \<le> s2"
proof -
  let ?m1 = "m\<lparr>wallet_age_months := a1\<rparr>" and ?m2 = "m\<lparr>wallet_age_months := a2\<rparr>"
  from assms(3) obtain sf1 r1 where sf1: "score_float ?m1 = Inr sf1" and r1: "py_round sf1 = Inr r1"
    and s1: "s1 = max 0 (min 100 r1)"
    by (auto simp: compute_trust_score_def Let_def split: sum.splits)
  from assms(4) obtain sf2 r2 where sf2: "score_float ?m2 = Inr sf2" and r2: "py_round sf2 = Inr r2"
    and s2: "s2 = max 0 (min 100 r2)"
    by (auto simp: compute_trust_score_def Let_def split: sum.splits)
  from sf1 obtain f1 fc where f1: "float_of_int a1 = Inr f1"
    and fc: "float_of_int (suspicious_behavior_count m) = Inr fc"
    by (auto simp: score_float_def Let_def split: sum.splits)
  from sf2 obtain f2 where f2: "float_of_int a2 = Inr f2"
    by (auto simp: score_float_def Let_def split: sum.splits)
  let ?y1 = "rd (of_int a1)" and ?y2 = "rd (of_int a2)"
  have y: "f1 = Fin ?y1" "f2 = Fin ?y2" using f1 f2 by (auto dest: float_of_int_Inr)
  have y12: "0 \<le> ?y1" "?y1 \<le> ?y2" using assms(1,2) by (auto intro!: rd_nonneg rd_mono)
  from age_component_mono [OF y12] obtain c1 c2
    where c: "py_min (Fin 100) (fmul (Fin ?y1) (Fin 4)) = Fin c1"
      "py_min (Fin 100) (fmul (Fin ?y2) (Fin 4)) = Fin c2" "0 \<le> c1" "c1 \<le> c2" "c2 \<le> 100"
    by blast
  define w :: real where "w = 5404319552844595 / 2 ^ 54"
  have w: "WEIGHT_AGE = Fin w" "0 \<le> w" by (simp_all add: w_def WEIGHT_AGE_val)
  have "w * c1 \<le> w * c2" using c(4) w(2) by (rule mult_left_mono)
  then have t: "fmono (fmul WEIGHT_AGE (Fin c1)) (fmul WEIGHT_AGE (Fin c2))"
    by (simp add: w fmono_def b64_mono)
  define Y where "Y = fmul WEIGHT_ACTIVITY (activity_score m)"
  define Z where "Z = fmul WEIGHT_RISK (py_max (Fin 0) (fsub (Fin 100) (fmul fc PENALTY_PER_FLAG)))"
  have e1: "sf1 = fadd (fadd (fmul WEIGHT_AGE (Fin c1)) Y) Z"
    using sf1 by (simp add: score_float_def Let_def f1 fc y c AGE_SCORE_PER_MONTH_def Y_def Z_def
        del: fadd.simps fmul.simps)
  have e2: "sf2 = fadd (fadd (fmul WEIGHT_AGE (Fin c2)) Y) Z"
    using sf2 by (simp add: score_float_def Let_def f2 fc y c AGE_SCORE_PER_MONTH_def Y_def Z_def
        del: fadd.simps fmul.simps)
  have "fmono sf1 sf2" unfolding e1 e2 by (intro fadd_mono t)
  then have "r1 \<le> r2" using r1 r2 by (rule py_round_mono)
  then show ?thesis by (simp add: s1 s2)
qed

theorem trust_score_monotone_in_age_witness:
  "compute_trust_score (metrics_B\<lparr>wallet_age_months := 0\<rparr>) = Inr (70, ''Low'') \<and>
   compute_trust_score (metrics_B\<lparr>wallet_age_months := 30\<rparr>) = Inr (100, ''Low'') \<and>
   (70 :: int) \<le> 100"
  using trust_score_monotone_in_age [of 0 30 metrics_B 70 "''Low''" 100 "''Low''"]
    compute_B0 compute_B
  by (simp add: metrics_B_def)

text \<open>
  Claim C1, as stated, fails: Python converts an \<open>int\<close> operand of a float multiplication
  to a float first, and for an age of \<open>2 ^ 1024\<close> months the conversion raises OverflowError,
  so no score is returned.
\<close>

theorem compute_trust_score_huge_age:
  "0 \<le> tx_count metrics_huge_age \<and> 0 \<le> wallet_age_months metrics_huge_age \<and>
   activity_score metrics_huge_age = Fin 0 \<and> 0 \<le> suspicious_behavior_count metrics_huge_age \<and>
   compute_trust_score metrics_huge_age = Inl OverflowError"
  using float_of_int_overflow
  by (simp add: metrics_huge_age_def compute_trust_score_def score_float_def)

text \<open>
  Claim C1, amended.  For every WalletMetrics with \<open>tx_count \<ge> 0\<close>, an activity score in
  \<open>[0.0, 100.0]\<close>, and an age and a count of suspicious behaviours that are non-negative and
  below \<open>2 ^ 1024 - 2 ^ 970\<close> (so that they convert to a float), \<open>compute_trust_score\<close>
  returns the score of the specification's formula, evaluated in float arithmetic, rounded
  half to even and clamped to \<open>[0, 100]\<close>, together with the risk level of that score:
  Low from 70, Medium from 40 to 69, High below 40.
\<close>

theorem compute_trust_score_formula:
  assumes "0 \<le> tx_count m"
    and "0 \<le> wallet_age_months m" "wallet_age_months m < max_float_int"
    and "activity_score m = Fin a" "0 \<le> a" "a \<le> 100"
    and "0 \<le> suspicious_behavior_count m" "suspicious_behavior_count m < max_float_int"
  shows "\<exists>s. spec_trust_score m = Inr s \<and> 0 \<le> s \<and> s \<le> 100 \<and>
           compute_trust_score m = Inr (s, spec_risk_level s)"
proof -
  have sf: "score_float m = Inr (spec_raw_score m)"
    by (rule score_float_eq_spec [OF assms(2,3,7,8)])
  from score_float_range [OF assms(2,4,5,6,7) sf]
  obtain x where x: "spec_raw_score m = Fin x" "0 \<le> x" "x \<le> 100" by blast
  have "rne 0 \<le> rne x" using x(2) by (rule rne_mono)
  moreover have "rne x \<le> rne 100" using x(3) by (rule rne_mono)
  ultimately have "0 \<le> rne x" "rne x \<le> 100" by simp_all
  then show ?thesis
    by (simp add: spec_trust_score_def compute_trust_score_def sf x py_round_def
        risk_level_of_eq_spec Let_def)
qed

theorem compute_trust_score_formula_witness:
  "spec_trust_score metrics_B = Inr 100 \<and>
   compute_trust_score metrics_B = Inr (100, ''Low'')"
  using compute_trust_score_formula [of metrics_B 100] spec_trust_score_B
  by (auto simp: metrics_B_def max_float_int_def spec_risk_level_def)

section \<open>Activity score\<close>

lemma two_powr_inverse_le:
  fixes N :: nat
  assumes "0 < N"
  shows "(2::real) powr (1 / real N) \<le> 1 + 1 / real N"
proof -
  have "- 1 \<le> 1 / real N" by (rule order_trans [of _ 0]) simp_all
  then have "1 + real N * (1 / real N) \<le> (1 + 1 / real N) ^ N"
    by (rule Bernoulli_inequality)
  then have "2 \<le> (1 + 1 / real N) ^ N" using assms by simp
  then have "(2::real) powr (1 / real N) \<le> ((1 + 1 / real N) ^ N) powr (1 / real N)"
    by (intro powr_mono2) simp_all
  also have "\<dots> = ((1 + 1 / real N) powr real N) powr (1 / real N)"
    by (subst powr_realpow) (simp_all add: add_pos_nonneg)
  also have "\<dots> = 1 + 1 / real N"
    using assms by (simp add: powr_powr add_pos_nonneg)
  finally show ?thesis .
qed

lemma half_powr_three_fifths:
  "65967 / 100000 \<le> (1 / 2 :: real) powr (3 / 5)" "(1 / 2 :: real) powr (3 / 5) \<le> 65976 / 100000"
proof -
  have e: "(1 / 2 :: real) powr (3 / 5) = (1 / 8) powr (1 / 5)"
  proof -
    have "(1 / 8 :: real) = (1 / 2) powr 3" by (simp add: power3_eq_cube)
    then show ?thesis by (simp only: powr_powr) simp
  qed
  have l: "(65967 / 100000 :: real) = ((65967 / 100000) powr 5) powr (1 / 5)"
    by (simp only: powr_powr) simp
  have u: "(65976 / 100000 :: real) = ((65976 / 100000) powr 5) powr (1 / 5)"
    by (simp only: powr_powr) simp
  have "((65967 / 100000 :: real) powr 5) powr (1 / 5) \<le> (1 / 8) powr (1 / 5)"
    by (intro powr_mono2) (simp_all add: power_divide)
  then show "65967 / 100000 \<le> (1 / 2 :: real) powr (3 / 5)" using e l by simp
  have "(1 / 8 :: real) powr (1 / 5) \<le> ((65976 / 100000) powr 5) powr (1 / 5)"
    by (intro powr_mono2) (simp_all add: power_divide)
  then show "(1 / 2 :: real) powr (3 / 5) \<le> 65976 / 100000" using e u by simp
qed

lemma lit_0_6_value: "lit_0_6 = Fin value_0_6"
  by (simp add: lit_0_6_val value_0_6_def)

lemma value_0_6_bounds: "1 / 2 \<le> value_0_6" "value_0_6 \<le> 3 / 5" "3 / 5 - 1 / 10000 \<le> value_0_6"
  by (simp_all add: value_0_6_def)

lemma half_powr_lit:
  "2702 / 4096 \<le> (1 / 2 :: real) powr value_0_6"
  "(1 / 2 :: real) powr value_0_6 \<le> 2705 / 4096"
proof -
  let ?c = "value_0_6"
  have "(1 / 2 :: real) powr (3 / 5) \<le> (1 / 2) powr ?c"
    using value_0_6_bounds(2) by (intro powr_mono') simp_all
  then show "2702 / 4096 \<le> (1 / 2 :: real) powr ?c"
    using half_powr_three_fifths(1) by simp
  define d :: real where "d = 1 / real (10000::nat)"
  have d: "d = 1 / 10000" by (simp add: d_def)
  have "(1 / 2 :: real) powr ?c \<le> (1 / 2) powr (3 / 5 - d)"
    using value_0_6_bounds(3) by (intro powr_mono') (simp_all add: d)
  also have "\<dots> = (1 / 2) powr (3 / 5) / (1 / 2) powr d"
    by (rule powr_diff)
  also have "(1 / 2 :: real) powr d = 1 / 2 powr d"
    by (simp add: powr_divide)
  also have "(1 / 2) powr (3 / 5) / (1 / 2 powr d) = (1 / 2) powr (3 / 5) * 2 powr d"
    by simp
  also have "\<dots> \<le> (65976 / 100000) * (1 + d)"
    using half_powr_three_fifths(2) two_powr_inverse_le [of 10000]
    by (intro mult_mono) (simp_all add: d_def)
  also have "\<dots> \<le> 2705 / 4096" by (simp add: d)
  finally show "(1 / 2 :: real) powr ?c \<le> 2705 / 4096" .
qed

lemma rd_dyadic:
  "rd (1 / 128) = 1 / 128" "rd (1 / 16) = 1 / 16" "rd (1 / 4) = 1 / 4" "rd (1 / 2) = 1 / 2"
  "rd (2702 / 4096) = 2702 / 4096" "rd (2705 / 4096) = 2705 / 4096"
  "rd (270200 / 4096) = 270200 / 4096" "rd (270500 / 4096) = 270500 / 4096"
  using rd_exact [of 1 "- 7"] rd_exact [of 1 "- 4"] rd_exact [of 1 "- 2"] rd_exact [of 1 "- 1"]
    rd_exact [of 2702 "- 12"] rd_exact [of 2705 "- 12"]
    rd_exact [of 270200 "- 12"] rd_exact [of 270500 "- 12"]
  by (simp_all add: power_int_minus_divide)

lemma int_truediv_ratio:
  assumes "0 < n" "n < 100"
  shows "int_truediv n TX_COUNT_FOR_FULL_ACTIVITY = Inr (Fin (rd (of_int n / 100)))"
    and "1 / 128 \<le> rd (of_int n / 100)" and "rd (of_int n / 100) \<le> 1"
proof -
  have n: "(1::real) \<le> of_int n" "(of_int n :: real) \<le> 100" using assms by simp_all
  have "b64 (of_int n / 100) = Fin (rd (of_int n / 100)) \<and>
      1 / 128 \<le> rd (of_int n / 100) \<and> rd (of_int n / 100) \<le> 1"
    using n by (intro b64_range [where lo = "1 / 128" and hi = 1]) (simp_all add: rd_dyadic)
  then show "int_truediv n TX_COUNT_FOR_FULL_ACTIVITY = Inr (Fin (rd (of_int n / 100)))"
    and "1 / 128 \<le> rd (of_int n / 100)" and "rd (of_int n / 100) \<le> 1"
    by (simp_all add: int_truediv_def TX_COUNT_FOR_FULL_ACTIVITY_def)
qed

lemma float_pow_unit:
  assumes "0 < r" "r \<le> 1"
  shows "float_pow (Fin r) lit_0_6 = Inr (Fin (rd (r powr (value_0_6))))"
    and "0 \<le> rd (r powr (value_0_6))"
    and "rd (r powr (value_0_6)) \<le> 1"
proof -
  let ?p = "r powr (value_0_6)"
  have "?p \<le> 1" using assms value_0_6_bounds(1) by (intro powr_le1) simp_all
  then have "b64 ?p = Fin (rd ?p) \<and> 0 \<le> rd ?p \<and> rd ?p \<le> 1"
    by (intro b64_range [where lo = 0 and hi = 1]) simp_all
  then show "float_pow (Fin r) lit_0_6 = Inr (Fin (rd ?p))" "0 \<le> rd ?p" "rd ?p \<le> 1"
    using assms(1) by (simp_all add: float_pow_def lit_0_6_value)
qed

lemma scale_100:
  assumes "0 \<le> p" "p \<le> 1"
  shows "fmul (Fin 100) (Fin p) = Fin (rd (100 * p))" "0 \<le> rd (100 * p)" "rd (100 * p) \<le> 100"
proof -
  have "b64 (100 * p) = Fin (rd (100 * p)) \<and> 0 \<le> rd (100 * p) \<and> rd (100 * p) \<le> 100"
    using assms by (intro b64_range [where lo = 0 and hi = 100]) simp_all
  then show "fmul (Fin 100) (Fin p) = Fin (rd (100 * p))" "0 \<le> rd (100 * p)" "rd (100 * p) \<le> 100"
    by simp_all
qed

lemma py_round1_unit:
  assumes "0 \<le> x" "x \<le> 100"
  shows "py_round1 (Fin x) = Inr (Fin (rd (of_int (rne (x * 10)) / 10)))"
    and "0 \<le> rd (of_int (rne (x * 10)) / 10)" and "rd (of_int (rne (x * 10)) / 10) \<le> 100"
proof -
  have "rne (of_int 0) \<le> rne (x * 10)" using assms(1) by (intro rne_mono) simp
  moreover have "rne (x * 10) \<le> rne (of_int 1000)" using assms(2) by (intro rne_mono) simp
  ultimately have k: "0 \<le> rne (x * 10)" "rne (x * 10) \<le> 1000" by (simp_all only: rne_of_int)
  then have k': "(0::real) \<le> of_int (rne (x * 10)) / 10" "(of_int (rne (x * 10)) :: real) / 10 \<le> 100"
    by simp_all
  let ?y = "of_int (rne (x * 10)) / 10 :: real"
  have "b64 ?y = Fin (rd ?y) \<and> 0 \<le> rd ?y \<and> rd ?y \<le> 100"
    using k' by (intro b64_range [where lo = 0 and hi = 100]) simp_all
  then show "py_round1 (Fin x) = Inr (Fin (rd ?y))" "0 \<le> rd ?y" "rd ?y \<le> 100"
    by (simp_all add: py_round1_def)
qed

lemma py_min_100:
  "x \<le> 100 \<Longrightarrow> py_min (Fin 100) (Fin x) = Fin x"
  by (simp add: py_min_def)

lemma activity_score_mid:
  assumes "0 < n" "n < 100"
  shows "\<exists>r p x y. int_truediv n 100 = Inr (Fin r) \<and> float_pow (Fin r) lit_0_6 = Inr (Fin p) \<and>
           fmul (Fin 100) (Fin p) = Fin x \<and> py_round1 (Fin x) = Inr (Fin y) \<and>
           tx_count_to_activity_score n = Inr (Fin y) \<and>
           r = rd (of_int n / 100) \<and> p = rd (r powr value_0_6) \<and> x = rd (100 * p) \<and>
           y = rd (of_int (rne (x * 10)) / 10) \<and>
           0 < r \<and> r \<le> 1 \<and> 0 \<le> p \<and> p \<le> 1 \<and> 0 \<le> x \<and> x \<le> 100 \<and> 0 \<le> y \<and> y \<le> 100"
proof -
  let ?r = "rd (of_int n / 100)"
  let ?p = "rd (?r powr value_0_6)"
  let ?x = "rd (100 * ?p)"
  let ?y = "rd (of_int (rne (?x * 10)) / 10)"
  have r: "int_truediv n TX_COUNT_FOR_FULL_ACTIVITY = Inr (Fin ?r)" "1 / 128 \<le> ?r" "?r \<le> 1"
    using int_truediv_ratio [of n] assms by simp_all
  have r0: "0 < ?r" using r(2) by linarith
  have r': "int_truediv n 100 = Inr (Fin ?r)"
    using r(1) by (simp add: TX_COUNT_FOR_FULL_ACTIVITY_def)
  note p = float_pow_unit [OF r0 r(3)]
  note x = scale_100 [OF p(2,3)]
  note y = py_round1_unit [OF x(2,3)]
  have code: "tx_count_to_activity_score n = Inr (Fin ?y)"
    using assms by (simp add: tx_count_to_activity_score_def r' p(1) x(1) py_min_100 [OF x(3)] y(1)
        TX_COUNT_FOR_FULL_ACTIVITY_def del: fmul.simps)
  from r' p x y code r0 r(3) show ?thesis
    by (intro exI [of _ "?r"] exI [of _ "?p"] exI [of _ "?x"] exI [of _ "?y"] conjI)
      (assumption | rule refl)+
qed

lemma activity_score_total:
  "\<exists>y. tx_count_to_activity_score n = Inr (Fin y) \<and> 0 \<le> y \<and> y \<le> 100"
proof -
  consider "n \<le> 0" | "100 \<le> n" | "0 < n" "n < 100" by linarith
  then show ?thesis
  proof cases
    case 1
    then show ?thesis by (simp add: tx_count_to_activity_score_def)
  next
    case 2
    then show ?thesis
      by (simp add: tx_count_to_activity_score_def TX_COUNT_FOR_FULL_ACTIVITY_def)
  next
    case 3
    from activity_score_mid [OF 3] show ?thesis by blast
  qed
qed

text \<open>
  Claim C2.  For every integer transaction count the activity score is returned (no
  exception), and it is \<open>0.0\<close> for a count of at most 0, \<open>100.0\<close> for a count of at least 100,
  and otherwise \<open>100 * (tx_count / 100) ** 0.6\<close> rounded to one decimal place and then
  clamped to at most \<open>100.0\<close>.
\<close>

theorem tx_count_to_activity_score_cases:
  "(n \<le> 0 \<longrightarrow> tx_count_to_activity_score n = Inr (Fin 0)) \<and>
   (100 \<le> n \<longrightarrow> tx_count_to_activity_score n = Inr (Fin 100)) \<and>
   (0 < n \<and> n < 100 \<longrightarrow>
      (\<exists>ratio p s. int_truediv n 100 = Inr ratio \<and> float_pow ratio lit_0_6 = Inr p \<and>
         py_round1 (fmul (Fin 100) p) = Inr s \<and>
         tx_count_to_activity_score n = Inr (py_min (Fin 100) s)))"
proof (intro conjI impI)
  assume "n \<le> 0"
  then show "tx_count_to_activity_score n = Inr (Fin 0)"
    by (simp add: tx_count_to_activity_score_def)
next
  assume "100 \<le> n"
  then show "tx_count_to_activity_score n = Inr (Fin 100)"
    by (simp add: tx_count_to_activity_score_def TX_COUNT_FOR_FULL_ACTIVITY_def)
next
  assume n: "0 < n \<and> n < 100"
  then obtain r p x y where m: "int_truediv n 100 = Inr (Fin r)"
    "float_pow (Fin r) lit_0_6 = Inr (Fin p)" "fmul (Fin 100) (Fin p) = Fin x"
    "py_round1 (Fin x) = Inr (Fin y)" "tx_count_to_activity_score n = Inr (Fin y)" "y \<le> 100"
    using activity_score_mid [of n] by blast
  have "tx_count_to_activity_score n = Inr (py_min (Fin 100) (Fin y))"
    using m(5,6) by (simp add: py_min_100)
  with m(1-4) show "\<exists>ratio p s. int_truediv n 100 = Inr ratio \<and> float_pow ratio lit_0_6 = Inr p \<and>
         py_round1 (fmul (Fin 100) p) = Inr s \<and>
         tx_count_to_activity_score n = Inr (py_min (Fin 100) s)"
    by (intro exI [of _ "Fin r"] exI [of _ "Fin p"] exI [of _ "Fin y"]) (simp del: fmul.simps)
qed

lemma activity_score_50: "tx_count_to_activity_score 50 = Inr (Fin 66)"
proof -
  let ?p = "rd ((1 / 2) powr value_0_6)"
  let ?x = "rd (100 * ?p)"
  have r: "int_truediv 50 100 = Inr (Fin (1 / 2))"
    using int_truediv_ratio(1) [of 50] rd_dyadic(4) by (simp add: TX_COUNT_FOR_FULL_ACTIVITY_def)
  note p = float_pow_unit [of "1 / 2"]
  have pb: "2702 / 4096 \<le> ?p" "?p \<le> 2705 / 4096"
    using rd_mono [OF half_powr_lit(1)] rd_mono [OF half_powr_lit(2)] rd_dyadic(5,6) by simp_all
  have "270200 / 4096 \<le> 100 * ?p" "100 * ?p \<le> 270500 / 4096" using pb by simp_all
  then have xb: "270200 / 4096 \<le> ?x" "?x \<le> 270500 / 4096"
    using rd_mono [of "270200 / 4096" "100 * ?p"] rd_mono [of "100 * ?p" "270500 / 4096"]
      rd_dyadic(7,8)
    by simp_all
  have x: "fmul (Fin 100) (Fin ?p) = Fin ?x"
    using pb by (intro scale_100(1)) simp_all
  have "\<bar>?x * 10 - of_int 660\<bar> < 1 / 2"
    using xb unfolding abs_less_iff of_int_numeral by linarith
  then have k: "rne (?x * 10) = 660" by (rule rne_eqI)
  have y: "py_round1 (Fin ?x) = Inr (Fin 66)"
    using b64_of_small_int [of 66] by (simp add: py_round1_def k)
  have "?x \<le> 100" using xb by simp
  then show ?thesis
    using p(1) by (simp add: tx_count_to_activity_score_def r x y py_min_100
        TX_COUNT_FOR_FULL_ACTIVITY_def del: fmul.simps)
qed

theorem tx_count_to_activity_score_cases_witness:
  "tx_count_to_activity_score 0 = Inr (Fin 0) \<and>
   tx_count_to_activity_score 100 = Inr (Fin 100) \<and>
   (\<exists>ratio p s. int_truediv 50 100 = Inr ratio \<and> float_pow ratio lit_0_6 = Inr p \<and>
      py_round1 (fmul (Fin 100) p) = Inr s \<and>
      tx_count_to_activity_score 50 = Inr (py_min (Fin 100) s))"
  using tx_count_to_activity_score_cases [of 0] tx_count_to_activity_score_cases [of 100]
    tx_count_to_activity_score_cases [of 50]
  by simp

lemma rd_65_5: "rd (131 / 2) = 131 / 2"
  using rd_exact [of 131 "- 1"] by (simp add: power_int_minus_divide)

text \<open>
  Claim C3, as stated, fails at its third example: for 50 transactions the curve gives
  \<open>100 * 0.5 ** 0.6 = 65.97...\<close>, which rounds to \<open>66.0\<close>, not to \<open>65.3\<close>.
\<close>

theorem activity_score_50_is_not_65_3:
  "tx_count_to_activity_score 50 \<noteq> Inr (b64 (653 / 10))"
proof -
  have "rd (653 / 10) \<le> rd (131 / 2)" by (rule rd_mono) simp
  then have "rd (653 / 10) \<le> 131 / 2" by (simp only: rd_65_5)
  then have "b64 (653 / 10) \<noteq> Fin 66"
    by (cases "653 / 10 :: real" rule: b64_cases) auto
  then show ?thesis by (simp add: activity_score_50)
qed

text \<open>
  Claim C3, amended.  The activity-score mapping sends a count of 0 to \<open>0.0\<close>, a count of
  100 to \<open>100.0\<close>, and a count of 50 to \<open>66.0\<close>.
\<close>

theorem activity_score_boundaries:
  "tx_count_to_activity_score 0 = Inr (Fin 0) \<and>
   tx_count_to_activity_score 100 = Inr (Fin 100) \<and>
   tx_count_to_activity_score 50 = Inr (Fin 66)"
  by (simp add: activity_score_50)
    (simp add: tx_count_to_activity_score_def TX_COUNT_FOR_FULL_ACTIVITY_def)

lemma sixteenth_powr_half: "(1 / 16 :: real) powr (1 / 2) = 1 / 4"
proof -
  have "(1 / 16 :: real) = (1 / 4) powr 2" by (simp add: power2_eq_square)
  then show ?thesis by (simp only: powr_powr) simp
qed

lemma activity_score_low:
  assumes "n < 5" "tx_count_to_activity_score n = Inr sc"
  shows "flt sc (Fin 80)"
proof (cases "n \<le> 0")
  case True
  with assms(2) show ?thesis by (auto simp: tx_count_to_activity_score_def)
next
  case False
  then have n: "0 < n" "n < 100" using assms(1) by simp_all
  from activity_score_mid [OF n] obtain r p x y where
    m: "tx_count_to_activity_score n = Inr (Fin y)"
      "r = rd (of_int n / 100)" "p = rd (r powr value_0_6)" "x = rd (100 * p)"
      "y = rd (of_int (rne (x * 10)) / 10)" "0 < r"
    by blast
  have "(of_int n :: real) \<le> 4" using assms(1) by simp
  then have "rd (of_int n / 100) \<le> rd (1 / 16)" by (intro rd_mono) simp
  then have r: "r \<le> 1 / 16" using rd_dyadic(2) by (simp add: m(2))
  have "r powr value_0_6 \<le> (1 / 16) powr value_0_6"
    using r m(6) value_0_6_bounds(1) by (intro powr_mono2) simp_all
  also have "\<dots> \<le> (1 / 16) powr (1 / 2)"
    using value_0_6_bounds(1) by (intro powr_mono') simp_all
  finally have "r powr value_0_6 \<le> 1 / 4" by (simp only: sixteenth_powr_half)
  then have "rd (r powr value_0_6) \<le> rd (1 / 4)" by (rule rd_mono)
  then have p: "p \<le> 1 / 4" using rd_dyadic(3) by (simp add: m(3))
  then have "rd (100 * p) \<le> rd 25" by (intro rd_mono) simp
  then have x: "x \<le> 25" by (simp add: m(4))
  then have "rne (x * 10) \<le> rne (of_int 250)" by (intro rne_mono) simp
  then have "rne (x * 10) \<le> 250" by (simp only: rne_of_int)
  then have "(of_int (rne (x * 10)) :: real) \<le> 250" by simp
  then have "rd (of_int (rne (x * 10)) / 10) \<le> rd 25" by (intro rd_mono) simp
  then have "y \<le> 25" by (simp add: m(5))
  with assms(2) m(1) show ?thesis by auto
qed

section \<open>The address digest\<close>

lemma strip_idem: "strip (strip s) = strip s"
proof -
  define t where "t = dropWhile is_space s"
  define u where "u = rev (dropWhile is_space (rev t))"
  have su: "strip s = u" by (simp add: strip_def t_def u_def)
  have t: "t = u @ rev (takeWhile is_space (rev t))"
  proof -
    have "rev (dropWhile is_space (rev t)) @ rev (takeWhile is_space (rev t))
        = rev (takeWhile is_space (rev t) @ dropWhile is_space (rev t))"
      by (simp only: rev_append)
    also have "\<dots> = t" by (simp only: takeWhile_dropWhile_id rev_rev_ident)
    finally show ?thesis by (simp only: u_def)
  qed
  have head: "dropWhile is_space u = u"
  proof (cases u)
    case Nil
    then show ?thesis by simp
  next
    case (Cons c cs)
    with t have "hd t = c" "t \<noteq> []" by (metis append_Cons list.sel(1), auto)
    then have "\<not> is_space c" using hd_dropWhile [of is_space s] by (simp add: t_def)
    with Cons show ?thesis by simp
  qed
  have "rev u = dropWhile is_space (rev t)" by (simp add: u_def)
  then have tail: "dropWhile is_space (rev u) = rev u" by simp
  show ?thesis by (simp add: su) (simp add: strip_def head tail)
qed

lemma hex_value_hexchar: "k < 16 \<Longrightarrow> hex_value (hexchar k) = Some k"
proof -
  assume "k < 16"
  then have "k = 0 \<or> k = 1 \<or> k = 2 \<or> k = 3 \<or> k = 4 \<or> k = 5 \<or> k = 6 \<or> k = 7 \<or> k = 8 \<or>
      k = 9 \<or> k = 10 \<or> k = 11 \<or> k = 12 \<or> k = 13 \<or> k = 14 \<or> k = 15"
    by presburger
  then show ?thesis by (auto simp: hexchar_def hex_value_def)
qed

lemma length_hex_digits [simp]: "length (hex_digits n v) = n"
  by (induction n arbitrary: v) simp_all

lemma hex_accum_append:
  "hex_accum acc (xs @ ys) = (case hex_accum acc xs of Inl e \<Rightarrow> Inl e | Inr a \<Rightarrow> hex_accum a ys)"
  by (induction xs arbitrary: acc) (simp_all split: option.splits)

lemma hex_accum_digits:
  "hex_accum acc (hex_digits n v) = Inr (acc * 16 ^ n + int (v mod 16 ^ n))"
proof (induction n arbitrary: v)
  case 0
  then show ?case by simp
next
  case (Suc n)
  have d: "v mod 16 < 16" by simp
  have "(v div 16 mod 16 ^ n) * 16 + v mod 16 = v mod 16 ^ Suc n"
    by (simp add: mod_mult2_eq)
  then have "int (v div 16 mod 16 ^ n) * 16 + int (v mod 16) = int (v mod 16 ^ Suc n)"
    by (metis of_nat_add of_nat_mult of_nat_numeral)
  then show ?case
    by (simp add: hex_accum_append Suc.IH hex_value_hexchar [OF d] algebra_simps)
qed

lemma take_hex_digits: "take k (hex_digits (k + j) v) = hex_digits k (v div 16 ^ j)"
proof (induction j arbitrary: v)
  case 0
  then show ?case by simp
next
  case (Suc j)
  have "take k (hex_digits (Suc (k + j)) v) = take k (hex_digits (k + j) (v div 16))"
    by simp
  also have "\<dots> = hex_digits k (v div 16 div 16 ^ j)" by (rule Suc.IH)
  also have "v div 16 div 16 ^ j = v div 16 ^ Suc j" by (simp add: div_mult2_eq)
  finally show ?case by simp
qed

lemma digest_prefix_value:
  "py_int_base16 (take 8 (hexdigest d)) = Inr (uint d div 2 ^ 224)"
proof -
  have t: "take 8 (hexdigest d) = hex_digits 8 (unat d div 16 ^ 56)"
    using take_hex_digits [of 8 56 "unat d"] by (simp add: hexdigest_def)
  have ne: "hex_digits 8 (unat d div 16 ^ 56) \<noteq> []"
    using length_hex_digits [of 8 "unat d div 16 ^ 56"] by (metis length_0_conv zero_neq_numeral)
  have "unat d < 2 ^ 256" using unsigned_less [of d, where 'a = nat] by simp
  then have "unat d div 16 ^ 56 < 16 ^ 8" by (simp add: less_mult_imp_div_less)
  then have m: "unat d div 16 ^ 56 mod 16 ^ 8 = unat d div 16 ^ 56" by simp
  have "int (unat d div 16 ^ 56) = uint d div 2 ^ 224"
    by (simp add: zdiv_int)
  then show ?thesis
    by (simp only: py_int_base16_def t ne if_False hex_accum_digits m) simp
qed

section \<open>The analyzer\<close>

lemma risk_flags_segments:
  "compute_risk_flags n age score =
     (if age < 3 then [''new_wallet''] else []) @
     (if n < 5 then [''low_activity''] else []) @
     (if fle (Fin 80) score \<and> age < 6 then [''high_churn''] else []) @
     (if 0 < n \<and> n mod 17 = 0 \<and> age < 12 then [''suspicious_patterns''] else [])"
  by (simp add: compute_risk_flags_def flag_names)

lemma oldest_block_time_None:
  assumes "\<forall>t \<in> set txs. block_time t = None"
  shows "oldest_block_time txs = None"
proof -
  have "concat (map (\<lambda>i. case block_time i of None \<Rightarrow> [] | Some t \<Rightarrow> [t]) txs) = []"
    using assms by (induction txs) simp_all
  then show ?thesis by (simp add: oldest_block_time_def)
qed

lemma mock_wallet_age_months_value:
  "mock_wallet_age_months sha (strip addr) =
     Inr ((uint (sha (encode_utf8 (strip addr))) div 2 ^ 224) mod 25)"
  by (simp add: mock_wallet_age_months_def strip_idem digest_prefix_value MOCK_AGE_CAP_MONTHS_def)

lemma analyze_wallet_Inr:
  assumes "analyze_wallet w addr = Inr m"
  shows "0 \<le> tx_count m"
    and "tx_count_to_activity_score (tx_count m) = Inr (activity_score m)"
    and "risk_flags m = compute_risk_flags (tx_count m) (wallet_age_months m) (activity_score m)"
    and "suspicious_behavior_count m = int (length (risk_flags m))"
    and "activity_level m = activity_score_to_level (activity_score m)"
  using assms by (auto simp: analyze_wallet_def Let_def split: sum.splits if_splits)

text \<open>
  Claim C5.  When the fetch succeeds and no record carries a timestamp (the empty list
  included), the analysis returns, and \<open>wallet_age_months\<close> is the integer written by the
  first 8 hexadecimal characters of the SHA-256 digest of the trimmed address (the top 32
  bits of the digest), reduced modulo 25.  The value depends on the trimmed address only,
  and lies in \<open>[0, 24]\<close>.
\<close>

theorem mock_age_from_digest:
  assumes "get_recent_transactions w (strip addr) MAX_SIGNATURES_LIMIT = Inr txs"
    and "\<forall>t \<in> set txs. block_time t = None"
  shows "\<exists>m. analyze_wallet w addr = Inr m \<and>
           py_int_base16 (take 8 (hexdigest (sha256 w (encode_utf8 (strip addr)))))
             = Inr (uint (sha256 w (encode_utf8 (strip addr))) div 2 ^ 224) \<and>
           wallet_age_months m = (uint (sha256 w (encode_utf8 (strip addr))) div 2 ^ 224) mod 25 \<and>
           0 \<le> wallet_age_months m \<and> wallet_age_months m \<le> 24"
proof -
  obtain y where y: "tx_count_to_activity_score (int (length txs)) = Inr (Fin y)"
    using activity_score_total by blast
  have o: "oldest_block_time txs = None" by (rule oldest_block_time_None [OF assms(2)])
  show ?thesis
    by (simp add: analyze_wallet_def Let_def assms(1) o mock_wallet_age_months_value y
        digest_prefix_value)
qed

lemma strip_samples: "strip ''abc'' = ''abc''" "strip '' abc'' = ''abc''" "strip ''abc  '' = ''abc''"
  by (simp_all add: strip_def is_space_def)

lemma fetch_sample:
  "get_recent_transactions sample_world ''abc'' MAX_SIGNATURES_LIMIT = Inr []"
  by (simp add: get_recent_transactions_def sample_world_def strip_samples)

lemma sample_digest_prefix:
  "uint (0xba7816bf8f01cfea414140de5dae2223b00361a396177a9cb410ff61f20015ad :: 256 word) div 2 ^ 224
     = 3128432319"
  by simp

lemma analyze_sample:
  "analyze_wallet sample_world ''abc'' =
     Inr \<lparr>tx_count = 0, wallet_age_months = 19, activity_score = Fin 0, activity_level = ''low'',
          suspicious_behavior_count = 1, risk_flags = [''low_activity'']\<rparr>"
proof -
  have age: "mock_wallet_age_months (sha256 sample_world) (strip ''abc'') = Inr 19"
    by (simp only: mock_wallet_age_months_value) (simp add: sample_world_def)
  have "oldest_block_time [] = None" by (simp add: oldest_block_time_def)
  then show ?thesis
    using age
    by (simp add: analyze_wallet_def Let_def strip_samples fetch_sample
        tx_count_to_activity_score_def risk_flags_segments activity_score_to_level_def
        ACTIVITY_LEVEL_LOW_THRESHOLD_def fle_def)
qed

theorem mock_age_from_digest_witness:
  "get_recent_transactions sample_world (strip ''abc'') MAX_SIGNATURES_LIMIT = Inr [] \<and>
   (\<exists>m. analyze_wallet sample_world ''abc'' = Inr m \<and> wallet_age_months m = 19)"
  using mock_age_from_digest [of sample_world "''abc''" "[]"] analyze_sample
  by (simp add: strip_samples fetch_sample)

text \<open>
  Claim C6.  Every WalletMetrics that the metrics deriver returns has
  \<open>suspicious_behavior_count\<close> equal to the length of \<open>risk_flags\<close>, and \<open>risk_flags\<close> holds no
  flag twice.
\<close>

theorem count_is_length_and_flags_distinct:
  assumes "analyze_wallet w addr = Inr m"
  shows "suspicious_behavior_count m = int (length (risk_flags m)) \<and> distinct (risk_flags m)"
  using analyze_wallet_Inr(3,4) [OF assms] by (simp add: risk_flags_segments)

theorem count_is_length_and_flags_distinct_witness:
  "analyze_wallet sample_world ''abc'' =
     Inr \<lparr>tx_count = 0, wallet_age_months = 19, activity_score = Fin 0, activity_level = ''low'',
          suspicious_behavior_count = 1, risk_flags = [''low_activity'']\<rparr> \<and>
   (1 :: int) = int (length [''low_activity'']) \<and> distinct [''low_activity'']"
  using count_is_length_and_flags_distinct [OF analyze_sample] analyze_sample by simp

text \<open>
  Claim C9.  In every WalletMetrics that the analyzer returns, fewer than 5 transactions
  give an activity score below 80, so \<open>low_activity\<close> occurs neither together with
  \<open>high_churn\<close> nor together with \<open>suspicious_patterns\<close> (a count below 5 is no positive
  multiple of 17); hence \<open>suspicious_behavior_count\<close> is at most 3.
\<close>

theorem low_activity_excludes_churn_and_patterns:
  assumes "analyze_wallet w addr = Inr m"
  shows "(tx_count m < 5 \<longrightarrow> flt (activity_score m) (Fin 80)) \<and>
         \<not> (''low_activity'' \<in> set (risk_flags m) \<and> ''high_churn'' \<in> set (risk_flags m)) \<and>
         \<not> (''low_activity'' \<in> set (risk_flags m) \<and> ''suspicious_patterns'' \<in> set (risk_flags m)) \<and>
         suspicious_behavior_count m \<le> 3"
proof -
  note a = analyze_wallet_Inr [OF assms]
  show ?thesis
  proof (cases "tx_count m < 5")
    case True
    have low: "flt (activity_score m) (Fin 80)" by (rule activity_score_low [OF True a(2)])
    then have "\<not> fle (Fin 80) (activity_score m)" by (simp add: fle_def)
    moreover have "\<not> (0 < tx_count m \<and> tx_count m mod 17 = 0)" using True by presburger
    ultimately show ?thesis using True low a(3,4) by (auto simp: risk_flags_segments)
  next
    case False
    then show ?thesis using a(3,4) by (auto simp: risk_flags_segments)
  qed
qed

theorem low_activity_excludes_churn_and_patterns_witness:
  "analyze_wallet sample_world ''abc'' =
     Inr \<lparr>tx_count = 0, wallet_age_months = 19, activity_score = Fin 0, activity_level = ''low'',
          suspicious_behavior_count = 1, risk_flags = [''low_activity'']\<rparr> \<and>
   flt (Fin 0) (Fin 80) \<and>
   ''high_churn'' \<notin> set [''low_activity''] \<and> ''suspicious_patterns'' \<notin> set [''low_activity''] \<and>
   (1 :: int) \<le> 3"
  using low_activity_excludes_churn_and_patterns [OF analyze_sample] analyze_sample by simp

text \<open>
  Claim C10.  \<open>analyze_wallet\<close> uses the address only after stripping it: for two address
  strings with the same stripped form, the same fetched records, the same clock reading
  and the same digest function, the two results (the metrics in every field, or the
  exception) are identical.
\<close>

theorem analyze_wallet_strip_invariant:
  assumes "strip addr1 = strip addr2"
    and "get_recent_transactions w1 (strip addr1) MAX_SIGNATURES_LIMIT
           = get_recent_transactions w2 (strip addr2) MAX_SIGNATURES_LIMIT"
    and "clock w1 = clock w2" and "sha256 w1 = sha256 w2"
  shows "analyze_wallet w1 addr1 = analyze_wallet w2 addr2"
proof -
  from assms(1,2) have "get_recent_transactions w1 (strip addr2) MAX_SIGNATURES_LIMIT
      = get_recent_transactions w2 (strip addr2) MAX_SIGNATURES_LIMIT"
    by simp
  then show ?thesis
    unfolding analyze_wallet_def assms(1,3,4) Let_def by (simp only:)
qed

theorem analyze_wallet_strip_invariant_witness:
  "strip '' abc'' = strip ''abc  '' \<and>
   analyze_wallet sample_world '' abc'' = analyze_wallet sample_world ''abc  ''"
  using analyze_wallet_strip_invariant [of "'' abc''" "''abc  ''" sample_world sample_world]
  by (simp add: strip_samples)

section \<open>Float arithmetic against exact arithmetic\<close>

lemma rd_exact':
  "x = of_int m * 2 powi p \<Longrightarrow> \<bar>m\<bar> < 2 ^ 53 \<Longrightarrow> - 1074 \<le> p \<Longrightarrow> rd x = x"
  by (simp add: rd_exact)

lemma b64_eqI: "rd x = y \<Longrightarrow> \<bar>y\<bar> < 2 ^ 1024 \<Longrightarrow> b64 x = Fin y"
  by (simp add: b64_def)

lemma float_of_int_max_float_int: "float_of_int max_float_int = Inl OverflowError"
proof -
  define x :: real where "x = 2 ^ 1024 - 2 ^ 970"
  have e: "expo x = 1023" by (rule expo_unique) (simp_all add: x_def)
  have q: "ulp_exp x = 971" unfolding ulp_exp_def e by simp
  have nz: "x \<noteq> 0" by (simp add: x_def)
  have s: "x * 2 powi (- 971) = of_int (2 ^ 53 - 1) + 1 / 2"
    by (simp add: x_def power_int_minus_divide)
  have "rne (of_int (2 ^ 53 - 1) + 1 / 2) = 2 ^ 53"
    by (simp add: rne_def Let_def)
  then have "rd x = 2 ^ 53 * 2 powi 971"
    unfolding rd_nz [OF nz] q s by simp
  then have "rd x = 2 ^ 1024" by simp
  then have "b64 x = PInf" by (simp add: b64_def)
  moreover have "(of_int max_float_int :: real) = x" by (simp add: max_float_int_def x_def)
  ultimately show ?thesis by (simp add: float_of_int_def)
qed

text \<open>
  The weighted sum is a float computation: for an age of one month, an activity score of
  \<open>0.6\<close> and no flag, the three float products add up to exactly \<open>21.5\<close>, which rounds to
  the even neighbour 22, while the sum of the exact products lies below \<open>21.5\<close> and would
  round to 21.
\<close>

lemma tie_example:
  "compute_trust_score metrics_tie = Inr (22, ''High'')"
  "rne (3 / 10 * 4 + 1 / 2 * value_0_6 + 2 / 10 * 100) = 21"
proof -
  define wa :: real where "wa = 5404319552844595 / 2 ^ 54"
  have wa: "WEIGHT_AGE = Fin wa" "WEIGHT_ACTIVITY = Fin (1 / 2)" "lit_0_6 = Fin (wa * 2)"
    by (simp_all add: wa_def WEIGHT_AGE_val WEIGHT_ACTIVITY_val lit_0_6_val)
  have "rd (wa * 4) = wa * 4"
    by (rule rd_exact' [of _ 5404319552844595 "- 52"])
      (simp_all add: wa_def power_int_minus_divide)
  then have a: "b64 (wa * 4) = Fin (wa * 4)" by (rule b64_eqI) (simp add: wa_def)
  have "rd (1 / 2 * (wa * 2)) = 1 / 2 * (wa * 2)"
    by (rule rd_exact' [of _ 5404319552844595 "- 54"])
      (simp_all add: wa_def power_int_minus_divide)
  then have "rd (1 / 2 * (wa * 2)) = wa" by simp
  then have b: "b64 (1 / 2 * (wa * 2)) = Fin wa" by (rule b64_eqI) (simp add: wa_def)
  have "rd (wa * 4 + wa) = of_int 6755399441055744 * 2 powi (0 - 52)"
    by (rule rd_eqI) (simp_all add: wa_def power_int_minus_divide)
  then have "rd (wa * 4 + wa) = 3 / 2" by (simp add: power_int_minus_divide)
  then have c: "b64 (wa * 4 + wa) = Fin (3 / 2)" by (rule b64_eqI) simp
  have "rd (3 / 2 + 20) = 3 / 2 + 20"
    by (rule rd_exact' [of _ 43 "- 1"]) (simp_all add: power_int_minus_divide)
  then have "rd (3 / 2 + 20) = 43 / 2" by simp
  then have d: "b64 (3 / 2 + 20) = Fin (43 / 2)" by (rule b64_eqI) simp
  have f: "float_of_int 1 = Inr (Fin 1)" "float_of_int 0 = Inr (Fin 0)"
    "b64 (1 * 4) = Fin 4" "b64 (0 * 25) = Fin 0" "b64 (100 + - 0) = Fin 100"
    using b64_of_small_int [of 1] b64_of_small_int [of 4] b64_of_small_int [of 0]
      b64_of_small_int [of 100]
    by (simp_all add: float_of_int_def)
  have age: "py_min (Fin 100) (fmul (Fin 1) (Fin 4)) = Fin 4"
    by (simp only: fmul.simps f) (simp add: py_min_def)
  have risk: "py_max (Fin 0) (fsub (Fin 100) (fmul (Fin 0) (Fin 25))) = Fin 100"
    by (simp only: fmul.simps fsub_def fneg.simps fadd.simps f) (simp add: py_max_def)
  have t1: "fmul WEIGHT_AGE (Fin 4) = Fin (wa * 4)" by (simp only: wa fmul.simps a)
  have t2: "fmul WEIGHT_ACTIVITY lit_0_6 = Fin wa" by (simp only: wa fmul.simps b)
  have s1: "fadd (Fin (wa * 4)) (Fin wa) = Fin (3 / 2)" by (simp only: fadd.simps c)
  have s2: "fadd (Fin (3 / 2)) (Fin 20) = Fin (43 / 2)" by (simp only: fadd.simps d)
  have sf: "score_float metrics_tie = Inr (Fin (43 / 2))"
    unfolding score_float_def metrics_tie_def Let_def AGE_SCORE_PER_MONTH_def PENALTY_PER_FLAG_def
    by (simp only: WalletMetrics.simps f sum.case age risk t1 t2 s1 weighted_top s2)
  have r: "rne (43 / 2) = 22" by (simp add: rne_def Let_def)
  show "compute_trust_score metrics_tie = Inr (22, ''High'')"
    by (simp add: compute_trust_score_def sf py_round_def r risk_level_of_def
        THRESHOLD_LOW_def THRESHOLD_MEDIUM_def)
  have "3 / 10 * 4 + 1 / 2 * value_0_6 + 2 / 10 * 100 - of_int 21 < 1 / 2"
    "of_int 21 - (3 / 10 * 4 + 1 / 2 * value_0_6 + 2 / 10 * 100) < 1 / 2"
    by (simp_all add: value_0_6_def)
  then have "\<bar>3 / 10 * 4 + 1 / 2 * value_0_6 + 2 / 10 * 100 - of_int 21\<bar> < 1 / 2"
    by linarith
  then show "rne (3 / 10 * 4 + 1 / 2 * value_0_6 + 2 / 10 * 100) = 21" by (rule rne_eqI)
qed

end
